theory Spec2Isabelle
  imports Complex_Main "HOL-Library.Sublist"
begin

section \<open>Extraction history store (popup.js and src/background.js, addExtractedUrl)\<close>

text \<open>
  A history entry is the object literal pushed by \<^verbatim>\<open>addExtractedUrl\<close>. The two timestamps
  are ISO strings written by \<^verbatim>\<open>new Date().toISOString()\<close> and read back with
  \<^verbatim>\<open>new Date(...)\<close> by the sort comparator; they are modelled by the number they denote
  (milliseconds since the epoch). \<^verbatim>\<open>count\<close> is a number; the only falsy count is 0.
\<close>

record HistoryEntry =
  url :: string
  firstExtracted :: int
  lastExtracted :: int
  count :: nat

text \<open>
  \<^verbatim>\<open>browser.storage.local\<close> restricted to the key \<^verbatim>\<open>extractedUrls\<close>: \<open>None\<close> is the key
  never written.
\<close>

type_synonym storage = "HistoryEntry list option"

definition getExtractedUrls :: "storage \<Rightarrow> HistoryEntry list" where
  "getExtractedUrls st = (case st of None \<Rightarrow> [] | Some urls \<Rightarrow> urls)"

text \<open>\<^verbatim>\<open>Array.prototype.findIndex\<close>: \<open>None\<close> stands for -1.\<close>

fun findIndex :: "('a \<Rightarrow> bool) \<Rightarrow> 'a list \<Rightarrow> nat option" where
  "findIndex P [] = None"
| "findIndex P (x # xs) = (if P x then Some 0 else map_option Suc (findIndex P xs))"

definition maxUrls :: nat where
  "maxUrls = 100"

text \<open>
  \<^verbatim>\<open>urls.sort((a, b) => new Date(b.lastExtracted) - new Date(a.lastExtracted))\<close>:
  a stable sort, most recent first.
\<close>

definition sortByLastExtracted :: "HistoryEntry list \<Rightarrow> HistoryEntry list" where
  "sortByLastExtracted urls = sort_key (\<lambda>item. - lastExtracted item) urls"

definition newEntry :: "string \<Rightarrow> int \<Rightarrow> HistoryEntry" where
  "newEntry u timestamp =
     \<lparr>url = u, firstExtracted = timestamp, lastExtracted = timestamp, count = 1\<rparr>"

definition bumpEntry :: "int \<Rightarrow> HistoryEntry \<Rightarrow> HistoryEntry" where
  "bumpEntry timestamp item =
     item\<lparr>lastExtracted := timestamp,
          count := (if count item = 0 then 1 else count item) + 1\<rparr>"

text \<open>
  \<^verbatim>\<open>addExtractedUrl(url)\<close>; the second argument is the clock reading of
  \<^verbatim>\<open>new Date()\<close>. The function reads the stored list, updates or pushes, trims when the
  list is longer than \<^verbatim>\<open>maxUrls\<close>, and writes the list back.
\<close>

definition addExtractedUrl :: "string \<Rightarrow> int \<Rightarrow> storage \<Rightarrow> storage" where
  "addExtractedUrl u timestamp st =
     (let urls = getExtractedUrls st;
          urls1 = (case findIndex (\<lambda>item. url item = u) urls of
                     Some existingIndex \<Rightarrow>
                       urls[existingIndex := bumpEntry timestamp (urls ! existingIndex)]
                   | None \<Rightarrow> urls @ [newEntry u timestamp]);
          urls2 = (if length urls1 > maxUrls
                   then take maxUrls (sortByLastExtracted urls1)
                   else urls1)
      in Some urls2)"

text \<open>Recording a sequence of (url, clock reading) pairs, one call after the other.\<close>

fun recordAll :: "(string \<times> int) list \<Rightarrow> storage \<Rightarrow> storage" where
  "recordAll [] st = st"
| "recordAll ((u, t) # rest) st = recordAll rest (addExtractedUrl u t st)"

definition hasUrl :: "string \<Rightarrow> HistoryEntry list \<Rightarrow> bool" where
  "hasUrl u urls = (findIndex (\<lambda>item. url item = u) urls \<noteq> None)"

text \<open>Example histories.\<close>

definition fullHistory :: storage where
  "fullHistory = Some (map (\<lambda>n. \<lparr>url = replicate (Suc n) CHR ''a'', firstExtracted = 1000 + int n,
                                  lastExtracted = 1000 + int n, count = 1\<rparr>) [0..<100])"

definition smallHistory :: storage where
  "smallHistory = Some [\<lparr>url = ''https://a.test/'', firstExtracted = 10, lastExtracted = 20, count = 3\<rparr>,
                        \<lparr>url = ''https://b.test/'', firstExtracted = 11, lastExtracted = 11, count = 1\<rparr>]"

definition hundredAndOne :: "(string \<times> int) list" where
  "hundredAndOne = map (\<lambda>n. (replicate n CHR ''a'', int n)) [0..<101]"

section \<open>Strings\<close>

text \<open>
  A JavaScript string is modelled by \<^typ>\<open>string\<close>, one \<^typ>\<open>char\<close> for one code unit
  below 256 (ASCII and Latin-1). On these code units \<^verbatim>\<open>toLowerCase\<close> maps A to Z and
  the accented capitals 0xC0 to 0xDE (without 0xD7) to the letter 32 places further, white
  space (\<^verbatim>\<open>trim\<close>, \<^verbatim>\<open>\s\<close>) is tab, line feed, vertical tab, form feed, carriage
  return, space and no-break space, and a regular expression with the \<^verbatim>\<open>i\<close> flag matches
  an ASCII letter of the pattern with its two cases only.
\<close>

definition upperCaseLetters :: string where
  "upperCaseLetters = ''ABCDEFGHIJKLMNOPQRSTUVWXYZ'' @
     [CHR 0xC0, CHR 0xC1, CHR 0xC2, CHR 0xC3, CHR 0xC4, CHR 0xC5, CHR 0xC6, CHR 0xC7,
      CHR 0xC8, CHR 0xC9, CHR 0xCA, CHR 0xCB, CHR 0xCC, CHR 0xCD, CHR 0xCE, CHR 0xCF,
      CHR 0xD0, CHR 0xD1, CHR 0xD2, CHR 0xD3, CHR 0xD4, CHR 0xD5, CHR 0xD6,
      CHR 0xD8, CHR 0xD9, CHR 0xDA, CHR 0xDB, CHR 0xDC, CHR 0xDD, CHR 0xDE]"

definition lowerCaseLetters :: string where
  "lowerCaseLetters = ''abcdefghijklmnopqrstuvwxyz'' @
     [CHR 0xE0, CHR 0xE1, CHR 0xE2, CHR 0xE3, CHR 0xE4, CHR 0xE5, CHR 0xE6, CHR 0xE7,
      CHR 0xE8, CHR 0xE9, CHR 0xEA, CHR 0xEB, CHR 0xEC, CHR 0xED, CHR 0xEE, CHR 0xEF,
      CHR 0xF0, CHR 0xF1, CHR 0xF2, CHR 0xF3, CHR 0xF4, CHR 0xF5, CHR 0xF6,
      CHR 0xF8, CHR 0xF9, CHR 0xFA, CHR 0xFB, CHR 0xFC, CHR 0xFD, CHR 0xFE]"

definition toLowerChar :: "char \<Rightarrow> char" where
  "toLowerChar c = (case map_of (zip upperCaseLetters lowerCaseLetters) c of
                      Some l \<Rightarrow> l | None \<Rightarrow> c)"

definition toLowerCase :: "string \<Rightarrow> string" where
  "toLowerCase s = map toLowerChar s"

definition isWhiteSpace :: "char \<Rightarrow> bool" where
  "isWhiteSpace c = (c \<in> set [CHR 0x09, CHR 0x0A, CHR 0x0B, CHR 0x0C, CHR 0x0D, CHR '' '', CHR 0xA0])"

definition trim :: "string \<Rightarrow> string" where
  "trim s = rev (dropWhile isWhiteSpace (rev (dropWhile isWhiteSpace s)))"

text \<open>\<^verbatim>\<open>s.includes(k)\<close>.\<close>

fun str_includes :: "string \<Rightarrow> string \<Rightarrow> bool" where
  "str_includes [] k = (k = [])"
| "str_includes (c # cs) k = (prefix k (c # cs) \<or> str_includes cs k)"

text \<open>The decimal digits of a natural number, as \<^verbatim>\<open>String(n)\<close> prints them.\<close>

fun digitsOf :: "nat \<Rightarrow> string" where
  "digitsOf n = (if n < 10 then [''0123456789'' ! n]
                 else digitsOf (n div 10) @ [''0123456789'' ! (n mod 10)])"

section \<open>Category classification and filename (popup.js)\<close>

definition patterns :: "(string \<times> string list) list" where
  "patterns =
    [(''architecture'', [''architecture'', ''microservice'', ''design pattern'', ''system design'', ''scalability'']),
     (''testing'', [''test'', ''testing'', ''tdd'', ''unit test'', ''integration'', ''e2e'']),
     (''security'', [''security'', ''authentication'', ''authorization'', ''oauth'', ''jwt'', ''encryption'']),
     (''performance'', [''performance'', ''optimization'', ''speed'', ''cache'', ''profiling'']),
     (''database'', [''database'', ''sql'', ''nosql'', ''mongodb'', ''postgres'', ''redis'']),
     (''devops'', [''devops'', ''docker'', ''kubernetes'', ''ci/cd'', ''deployment'', ''aws'', ''azure'']),
     (''frontend'', [''react'', ''vue'', ''angular'', ''frontend'', ''css'', ''ui'', ''ux'']),
     (''backend'', [''backend'', ''api'', ''rest'', ''graphql'', ''server'', ''node'', ''express'']),
     (''mobile'', [''mobile'', ''ios'', ''android'', ''react native'', ''flutter'']),
     (''ai_ml'', [''machine learning'', ''ai'', ''neural'', ''tensorflow'', ''data science'']),
     (''programming'', [''typescript'', ''javascript'', ''python'', ''java'', ''c#'', ''rust'', ''go'', ''programming''])]"

text \<open>The inner loop over one category's keywords: does it reach its \<^verbatim>\<open>return\<close>?\<close>

fun scanKeywords :: "string \<Rightarrow> string \<Rightarrow> string list \<Rightarrow> bool" where
  "scanKeywords titleLower urlLower [] = False"
| "scanKeywords titleLower urlLower (keyword # keywords) =
     (if str_includes titleLower keyword \<or> str_includes urlLower keyword then True
      else scanKeywords titleLower urlLower keywords)"

text \<open>The outer loop over \<^verbatim>\<open>Object.entries(patterns)\<close>, in declaration order.\<close>

fun scanPatterns :: "string \<Rightarrow> string \<Rightarrow> (string \<times> string list) list \<Rightarrow> string" where
  "scanPatterns titleLower urlLower [] = ''general''"
| "scanPatterns titleLower urlLower ((category, keywords) # rest) =
     (if scanKeywords titleLower urlLower keywords then category
      else scanPatterns titleLower urlLower rest)"

definition detectCategory :: "string \<Rightarrow> string \<Rightarrow> string" where
  "detectCategory title url' =
     scanPatterns (toLowerCase title) (toLowerCase url') patterns"

text \<open>The classification as the specification words it.\<close>

definition classify_spec :: "string \<Rightarrow> string \<Rightarrow> string" where
  "classify_spec titleLower urlLower =
     (case find (\<lambda>(category, keywords).
                   \<exists>keyword \<in> set keywords. sublist keyword titleLower \<or> sublist keyword urlLower)
                patterns of
        Some (category, keywords) \<Rightarrow> category
      | None \<Rightarrow> ''general'')"

text \<open>
  A \<^verbatim>\<open>Date\<close> object, as far as the code observes it: its time value and, in local time,
  \<^verbatim>\<open>getFullYear()\<close>, \<^verbatim>\<open>getMonth()\<close> (0 to 11), \<^verbatim>\<open>getDate()\<close>; and \<^verbatim>\<open>toISOString()\<close>.
\<close>

record jsDate =
  getTime :: int
  getFullYear :: int
  getMonth :: nat
  getDate :: nat
  toISOString :: string

record ImageSample =
  img_data :: string
  mimeType :: string
  alt :: string
  src :: string

record PageContent =
  title :: string
  html :: string
  images :: "ImageSample list"
  author :: string
  publicationDate :: "string option"

text \<open>\<^verbatim>\<open>String(n)\<close> for an integer.\<close>

definition String_of_int :: "int \<Rightarrow> string" where
  "String_of_int i = (if i < 0 then ''-'' @ digitsOf (nat (- i)) else digitsOf (nat i))"

definition padStart :: "nat \<Rightarrow> char \<Rightarrow> string \<Rightarrow> string" where
  "padStart n c s = replicate (n - length s) c @ s"

definition formatDate :: "jsDate \<Rightarrow> string" where
  "formatDate d =
     String_of_int (getFullYear d) @ ''-'' @ padStart 2 CHR ''0'' (digitsOf (getMonth d + 1))
       @ ''-'' @ padStart 2 CHR ''0'' (digitsOf (getDate d))"

definition safeChar :: "char \<Rightarrow> bool" where
  "safeChar c = (c \<in> set ''abcdefghijklmnopqrstuvwxyzABCDEFGHIJKLMNOPQRSTUVWXYZ0123456789_.-'')"

definition safeTitle :: "string \<Rightarrow> string" where
  "safeTitle t = toLowerCase (map (\<lambda>c. if safeChar c then c else CHR ''_'') t)"

text \<open>
  \<^verbatim>\<open>generateFilename(pageContent, url)\<close>. \<open>parse\<close> is \<^verbatim>\<open>new Date(string)\<close>
  (\<open>None\<close>: an invalid date), \<open>today\<close> is \<^verbatim>\<open>new Date()\<close>.
\<close>

definition generateFilename ::
  "(string \<Rightarrow> jsDate option) \<Rightarrow> jsDate \<Rightarrow> PageContent \<Rightarrow> string \<Rightarrow> string" where
  "generateFilename parse today pageContent url' =
     (let dateStr = (case publicationDate pageContent of
                       None \<Rightarrow> None
                     | Some p \<Rightarrow> if p = [] then None
                                else map_option formatDate (parse p));
          dateStr = (case dateStr of None \<Rightarrow> formatDate today | Some s \<Rightarrow>
                       if s = [] then formatDate today else s);
          category = detectCategory (title pageContent) url';
          t = safeTitle (title pageContent)
      in dateStr @ ''_'' @ category @ ''_'' @ (if t = [] then ''document'' else t) @ ''.md'')"

section \<open>Front matter (popup.js and src/background.js, createMetadata)\<close>

definition yamlSpecial :: string where
  "yamlSpecial = [CHR '':'', CHR 0x22, CHR 0x27, CHR ''|'', CHR ''>'', CHR ''{'', CHR ''}'',
                  CHR ''['', CHR '']'', CHR ''@'', CHR 0x60, CHR ''!'', CHR ''%'', CHR ''&'', CHR ''*'']"

definition escapeQuotes :: "string \<Rightarrow> string" where
  "escapeQuotes str = concat (map (\<lambda>c. if c = CHR 0x22 then [CHR 0x5C, CHR 0x22] else [c]) str)"

definition escapeYaml :: "string \<Rightarrow> string" where
  "escapeYaml str =
     (if str = [] then []
      else if list_ex (\<lambda>c. c \<in> set yamlSpecial) str \<or> CHR 0x0A \<in> set str
           then [CHR 0x22] @ escapeQuotes str @ [CHR 0x22]
           else str)"

declare digitsOf.simps [simp del]

text \<open>
  The date of the filename as the specification words it: the publication date when present
  and parseable, the current date otherwise.
\<close>

definition filenameDate_spec :: "(string \<Rightarrow> jsDate option) \<Rightarrow> jsDate \<Rightarrow> PageContent \<Rightarrow> jsDate" where
  "filenameDate_spec parse today pageContent =
     (case publicationDate pageContent of
        None \<Rightarrow> today
      | Some p \<Rightarrow> if p = [] then today
                 else (case parse p of None \<Rightarrow> today | Some d \<Rightarrow> d))"

text \<open>Example inputs.\<close>

definition jan10 :: jsDate where
  "jan10 = \<lparr>getTime = 1768046400000, getFullYear = 2026, getMonth = 0, getDate = 10,
            toISOString = ''2026-01-10T12:00:00.000Z''\<rparr>"

definition tipsPage :: PageContent where
  "tipsPage = \<lparr>title = ''C++ Tips: Part #1!'', html = ''<p>x</p>'', images = [], author = ''Unknown'',
               publicationDate = None\<rparr>"

text \<open>
  A date in the year 99, as \<^verbatim>\<open>new Date('0099-07-04')\<close> gives it, and a page published then.
\<close>

definition july4of99 :: jsDate where
  "july4of99 = \<lparr>getTime = - 59027097600000, getFullYear = 99, getMonth = 6, getDate = 4,
                 toISOString = ''0099-07-04T00:00:00.000Z''\<rparr>"

definition parseAncient :: "string \<Rightarrow> jsDate option" where
  "parseAncient s = (if s = ''0099-07-04'' then Some july4of99 else None)"

definition ancientPage :: PageContent where
  "ancientPage = \<lparr>title = ''Notes'', html = ''<p>x</p>'', images = [], author = ''Unknown'',
                  publicationDate = Some ''0099-07-04''\<rparr>"

section \<open>Regular expressions of the enrichment client (src/background.js)\<close>

text \<open>
  The regular expressions of \<^verbatim>\<open>improveMarkdownWithGemini\<close> are sequences of quantified
  character classes with one capture group, and one alternation of literals. They are
  matched as the JavaScript engine does: leftmost start, greedy quantifiers that give
  characters back on failure, lazy quantifiers that take characters on failure.
\<close>

datatype cclass =
    Lit char
  | LitI char
  | OneOf string
  | NoneOf string
  | Space
  | AnyChar
  | Either cclass cclass

datatype quant = Once | Optional | Many | Many1 | LazyMany

datatype item =
    Chars cclass quant bool
  | Alt "string list" bool

fun inClass :: "cclass \<Rightarrow> char \<Rightarrow> bool" where
  "inClass (Lit c) x = (x = c)"
| "inClass (LitI c) x = (toLowerChar x = toLowerChar c)"
| "inClass (OneOf cs) x = (x \<in> set cs)"
| "inClass (NoneOf cs) x = (x \<notin> set cs)"
| "inClass Space x = isWhiteSpace x"
| "inClass AnyChar x = True"
| "inClass (Either a b) x = (inClass a x \<or> inClass b x)"

text \<open>A literal alternative, compared without case: the rest of the input after it.\<close>

fun stripLitI :: "string \<Rightarrow> string \<Rightarrow> string option" where
  "stripLitI [] s = Some s"
| "stripLitI (c # cs) [] = None"
| "stripLitI (c # cs) (x # xs) = (if toLowerChar x = toLowerChar c then stripLitI cs xs else None)"

definition capture :: "bool \<Rightarrow> string \<Rightarrow> string \<Rightarrow> string" where
  "capture g cap s = (if g then cap @ s else cap)"

text \<open>
  \<open>matchHere items s cap\<close>: match the items at the start of \<open>s\<close>; the result is the text
  of the capture group, accumulated in \<open>cap\<close>.
\<close>

function (sequential) matchHere :: "item list \<Rightarrow> string \<Rightarrow> string \<Rightarrow> string option" where
  "matchHere [] s cap = Some cap"
| "matchHere (Chars c Once g # items) [] cap = None"
| "matchHere (Chars c Once g # items) (x # xs) cap =
     (if inClass c x then matchHere items xs (capture g cap [x]) else None)"
| "matchHere (Chars c Optional g # items) [] cap = matchHere items [] cap"
| "matchHere (Chars c Optional g # items) (x # xs) cap =
     (if inClass c x
      then (case matchHere items xs (capture g cap [x]) of
              Some r \<Rightarrow> Some r
            | None \<Rightarrow> matchHere items (x # xs) cap)
      else matchHere items (x # xs) cap)"
| "matchHere (Chars c Many g # items) [] cap = matchHere items [] cap"
| "matchHere (Chars c Many g # items) (x # xs) cap =
     (if inClass c x
      then (case matchHere (Chars c Many g # items) xs (capture g cap [x]) of
              Some r \<Rightarrow> Some r
            | None \<Rightarrow> matchHere items (x # xs) cap)
      else matchHere items (x # xs) cap)"
| "matchHere (Chars c Many1 g # items) [] cap = None"
| "matchHere (Chars c Many1 g # items) (x # xs) cap =
     (if inClass c x then matchHere (Chars c Many g # items) xs (capture g cap [x]) else None)"
| "matchHere (Chars c LazyMany g # items) [] cap = matchHere items [] cap"
| "matchHere (Chars c LazyMany g # items) (x # xs) cap =
     (case matchHere items (x # xs) cap of
        Some r \<Rightarrow> Some r
      | None \<Rightarrow> if inClass c x
                then matchHere (Chars c LazyMany g # items) xs (capture g cap [x])
                else None)"
| "matchHere (Alt [] g # items) s cap = None"
| "matchHere (Alt (a # alts) g # items) s cap =
     (case stripLitI a s of
        Some rest \<Rightarrow>
          (case matchHere items rest (capture g cap (take (length a) s)) of
             Some r \<Rightarrow> Some r
           | None \<Rightarrow> matchHere (Alt alts g # items) s cap)
      | None \<Rightarrow> matchHere (Alt alts g # items) s cap)"
  by pat_completeness auto
termination
  by (relation "measures [\<lambda>(items, s, cap). length items,
                           \<lambda>(items, s, cap). (case items of Alt alts g # rest \<Rightarrow> length alts | _ \<Rightarrow> 0),
                           \<lambda>(items, s, cap). length s]") auto

text \<open>\<^verbatim>\<open>text.match(regex)\<close> without the global flag: group 1 of the leftmost match.\<close>

fun regexMatch :: "item list \<Rightarrow> string \<Rightarrow> string option" where
  "regexMatch items [] = matchHere items [] []"
| "regexMatch items (x # xs) =
     (case matchHere items (x # xs) [] of
        Some r \<Rightarrow> Some r
      | None \<Rightarrow> regexMatch items xs)"

definition lit :: "string \<Rightarrow> item list" where
  "lit s = map (\<lambda>c. Chars (Lit c) Once False) s"

definition litI :: "string \<Rightarrow> item list" where
  "litI s = map (\<lambda>c. Chars (LitI c) Once False) s"

section \<open>Enrichment client (src/background.js)\<close>

text \<open>
  An exception value, by its \<^verbatim>\<open>message\<close>: \<open>Error\<close> is thrown by the code with
  \<^verbatim>\<open>new Error(...)\<close>, \<open>PlatformError\<close> by the browser (a rejected \<^verbatim>\<open>fetch\<close>, invalid
  JSON, an invalid date or URL, a property read on \<^verbatim>\<open>undefined\<close>).
\<close>

datatype js_error = Error string | PlatformError string

fun message :: "js_error \<Rightarrow> string" where
  "message (Error m) = m"
| "message (PlatformError m) = m"

text \<open>What \<^verbatim>\<open>response.json()\<close> gives, as far as the structure check looks at it.\<close>

datatype responseJson =
    InvalidJson string
  | MissingParts
  | PartWithoutText
  | PartText string

record response =
  status :: nat
  bodyText :: string
  bodyJson :: responseJson

definition ok :: "response \<Rightarrow> bool" where
  "ok r = (200 \<le> status r \<and> status r \<le> 299)"

datatype fetchOutcome = NetworkError string | Response response

text \<open>
  The browser and the remote service. \<open>fetch k\<close> is the outcome of the \<open>k\<close>-th call of
  \<^verbatim>\<open>fetch\<close> (counted from 0) and \<open>random k\<close> the \<open>k\<close>-th value of \<^verbatim>\<open>Math.random()\<close>;
  the request body (prompt and inline images) does not influence the control flow and is
  not represented. \<open>parseDate\<close> is \<^verbatim>\<open>new Date(string)\<close> (\<open>None\<close>: an invalid date),
  \<open>hostnameOf\<close> is \<^verbatim>\<open>new URL(url).hostname\<close> (\<open>None\<close>: the constructor throws).
\<close>

record platform =
  fetch :: "nat \<Rightarrow> fetchOutcome"
  random :: "nat \<Rightarrow> real"
  parseDate :: "string \<Rightarrow> jsDate option"
  hostnameOf :: "string \<Rightarrow> string option"

text \<open>What a run does to the outside, in order. \<open>Sleep\<close> carries milliseconds.\<close>

datatype effect =
    Fetch nat
  | Sleep real
  | Download string string bool
  | StorageSet "HistoryEntry list"
  | Notification string string
  | ProcessingComplete bool string

definition maxRetries :: nat where
  "maxRetries = 8"

definition baseDelay :: real where
  "baseDelay = 2"

text \<open>
  The loop of \<^verbatim>\<open>generateContentWithBackoff\<close> from a given attempt on. The result is the
  returned response (\<open>Inr None\<close> is the \<^verbatim>\<open>undefined\<close> of falling out of the loop) or the
  error thrown, with the calls and waits made.
\<close>

function backoffLoop :: "platform \<Rightarrow> nat \<Rightarrow> (js_error + response option) \<times> effect list" where
  "backoffLoop pf attempt =
     (if attempt < maxRetries then
        (case fetch pf attempt of
           Response r \<Rightarrow>
             if ok r then (Inr (Some r), [Fetch attempt])
             else if status r = 503 then
               (if attempt = maxRetries - 1 then (Inr (Some r), [Fetch attempt])
                else (case backoffLoop pf (attempt + 1) of
                        (res, events) \<Rightarrow>
                          (res, Fetch attempt
                                # Sleep ((baseDelay * 2 ^ attempt + random pf attempt) * 1000)
                                # events)))
             else (Inr (Some r), [Fetch attempt])
         | NetworkError m \<Rightarrow>
             if attempt = maxRetries - 1 then (Inl (PlatformError m), [Fetch attempt])
             else (case backoffLoop pf (attempt + 1) of
                     (res, events) \<Rightarrow>
                       (res, Fetch attempt
                             # Sleep ((baseDelay * 2 ^ attempt + random pf attempt) * 1000)
                             # events)))
      else (Inr None, []))"
  by pat_completeness auto
termination
  by (relation "measure (\<lambda>(pf, attempt). maxRetries - attempt)") auto

declare backoffLoop.simps [simp del]

definition generateContentWithBackoff :: "platform \<Rightarrow> (js_error + response option) \<times> effect list" where
  "generateContentWithBackoff pf = backoffLoop pf 0"

record EnrichmentResult =
  technologies :: "string list"
  programmingLanguages :: "string list"
  tags :: "string list"
  keyConcepts :: "string list"
  codeExamples :: bool
  difficultyLevel :: string
  summary :: string
  content :: string

text \<open>\<^verbatim>\<open>str.split(",")\<close>.\<close>

fun splitComma :: "string \<Rightarrow> string list" where
  "splitComma [] = [[]]"
| "splitComma (c # cs) =
     (if c = CHR '','' then [] # splitComma cs
      else (case splitComma cs of piece # pieces \<Rightarrow> (c # piece) # pieces | [] \<Rightarrow> [[c]]))"

text \<open>\<^verbatim>\<open>.map((x) => x.trim()).filter((x) => x && x.toLowerCase() !== "none")\<close>.\<close>

definition cleanItems :: "string list \<Rightarrow> string list" where
  "cleanItems items =
     filter (\<lambda>x. x \<noteq> [] \<and> toLowerCase x \<noteq> ''none'') (map trim items)"

text \<open>The test \<^verbatim>\<open>match && match[1] && match[1].toLowerCase() !== "none"\<close>.\<close>

definition usable :: "string option \<Rightarrow> bool" where
  "usable m = (case m of None \<Rightarrow> False | Some g \<Rightarrow> g \<noteq> [] \<and> toLowerCase g \<noteq> ''none'')"

text \<open>A bracketed list field of the primary parse, for example \<^verbatim>\<open>/Tags:\s*\[([^\]]*)\]/i\<close>.\<close>

definition bracketField :: "string \<Rightarrow> item list" where
  "bracketField label =
     litI label @ [Chars Space Many False, Chars (Lit CHR ''['') Once False,
                   Chars (NoneOf '']'') Many True, Chars (Lit CHR '']'') Once False]"

definition primaryList :: "string \<Rightarrow> string \<Rightarrow> string list" where
  "primaryList label metadataText =
     (let m = regexMatch (bracketField label) metadataText
      in if usable m then cleanItems (splitComma (the m)) else [])"

text \<open>
  The two fallback patterns of a field: the label (its last letter and the colon optional),
  white space, then a bracketed list or the rest of the line. \<open>labelItems\<close> is the label
  without the optional last letter.
\<close>

definition fallbackPatterns :: "item list \<Rightarrow> item list list" where
  "fallbackPatterns labelItems =
     [labelItems @ [Chars (LitI CHR ''s'') Optional False, Chars (Lit CHR '':'') Optional False,
                    Chars Space Many False, Chars (Lit CHR ''['') Once False,
                    Chars (NoneOf '']'') Many True, Chars (Lit CHR '']'') Once False],
      labelItems @ [Chars (LitI CHR ''s'') Optional False, Chars (Lit CHR '':'') Optional False,
                    Chars Space Many False, Chars (NoneOf [CHR 0x0A]) Many1 True]]"

definition underscoreOrSpace :: item where
  "underscoreOrSpace = Chars (Either (Lit CHR ''_'') Space) Once False"

definition techPatterns :: "item list list" where
  "techPatterns = fallbackPatterns (litI ''Technologie'')"

definition langPatterns :: "item list list" where
  "langPatterns = fallbackPatterns (litI ''Programming'' @ [underscoreOrSpace] @ litI ''Language'')"

definition tagsPatterns :: "item list list" where
  "tagsPatterns = fallbackPatterns (litI ''Tag'')"

definition conceptPatterns :: "item list list" where
  "conceptPatterns = fallbackPatterns (litI ''Key'' @ [underscoreOrSpace] @ litI ''Concept'')"

text \<open>
  \<^verbatim>\<open>match[1].includes("[") ? match[1].replace(/[\[\]]/g, "").split(",") : match[1].split(",")\<close>
\<close>

definition fallbackItems :: "string \<Rightarrow> string list" where
  "fallbackItems g =
     (if CHR ''['' \<in> set g then splitComma (filter (\<lambda>c. c \<noteq> CHR ''['' \<and> c \<noteq> CHR '']'') g)
      else splitComma g)"

text \<open>
  The \<^verbatim>\<open>for (const pattern of ...)\<close> loop of the fallback parse; \<open>current\<close> is the value
  of the field variable when the iteration starts.
\<close>

fun fallbackLoop :: "item list list \<Rightarrow> string \<Rightarrow> string list \<Rightarrow> string list" where
  "fallbackLoop [] fullText current = current"
| "fallbackLoop (pattern # rest) fullText current =
     (let m = regexMatch pattern fullText
      in if usable m
         then (let found = cleanItems (fallbackItems (the m))
               in if length found > 0 then found else fallbackLoop rest fullText found)
         else fallbackLoop rest fullText current)"

definition metadataRegex :: "item list" where
  "metadataRegex = lit (''## Metadata'' @ [CHR 0x0A]) @ [Chars AnyChar LazyMany True]
                     @ lit ([CHR 0x0A, CHR 0x0A] @ ''## Content'')"

definition contentRegex :: "item list" where
  "contentRegex = lit (''## Content'' @ [CHR 0x0A]) @ [Chars AnyChar Many True]"

definition codeExamplesRegex :: "item list" where
  "codeExamplesRegex = litI ''Code_Examples:'' @ [Chars Space Many False, Alt [''yes'', ''no''] True]"

definition difficultyRegex :: "item list" where
  "difficultyRegex = litI ''Difficulty_Level:''
                       @ [Chars Space Many False, Alt [''beginner'', ''intermediate'', ''advanced''] True]"

definition summaryRegex :: "item list" where
  "summaryRegex = lit ''Summary:'' @ [Chars Space Many False, Chars AnyChar Many True]"

text \<open>The parse of the model's text, from \<^verbatim>\<open>metadataMatch\<close> to \<^verbatim>\<open>finalMarkdown\<close>.\<close>

definition parseImprovedContent :: "string \<Rightarrow> EnrichmentResult" where
  "parseImprovedContent improvedContent =
     (let metadataMatch = regexMatch metadataRegex improvedContent;
          contentMatch = regexMatch contentRegex improvedContent;
          improvedMarkdown = (case contentMatch of Some body \<Rightarrow> trim body | None \<Rightarrow> improvedContent)
      in case metadataMatch of
           Some metadataText \<Rightarrow>
             \<lparr>technologies = primaryList ''Technologies:'' metadataText,
              programmingLanguages = primaryList ''Programming_Languages:'' metadataText,
              tags = primaryList ''Tags:'' metadataText,
              keyConcepts = primaryList ''Key_Concepts:'' metadataText,
              codeExamples = (case regexMatch codeExamplesRegex metadataText of
                                Some g \<Rightarrow> toLowerCase g = ''yes'' | None \<Rightarrow> False),
              difficultyLevel = (case regexMatch difficultyRegex metadataText of
                                   Some g \<Rightarrow> toLowerCase g | None \<Rightarrow> ''intermediate''),
              summary = (case regexMatch summaryRegex metadataText of
                           Some g \<Rightarrow> trim g | None \<Rightarrow> []),
              content = improvedMarkdown\<rparr>
         | None \<Rightarrow>
             \<lparr>technologies = fallbackLoop techPatterns improvedContent [],
              programmingLanguages = fallbackLoop langPatterns improvedContent [],
              tags = fallbackLoop tagsPatterns improvedContent [],
              keyConcepts = fallbackLoop conceptPatterns improvedContent [],
              codeExamples = False,
              difficultyLevel = ''intermediate'',
              summary = [],
              content = improvedMarkdown\<rparr>)"

text \<open>
  \<^verbatim>\<open>improveMarkdownWithGemini(markdown, apiKey, images, model)\<close>: the value returned
  (the field \<^verbatim>\<open>improvedMarkdown\<close> of the returned object) or the error thrown, with the
  calls and waits made. The \<^verbatim>\<open>catch\<close> logs and rethrows.
\<close>

definition improveMarkdownWithGemini ::
  "platform \<Rightarrow> string \<Rightarrow> string \<Rightarrow> (js_error + EnrichmentResult option) \<times> effect list" where
  "improveMarkdownWithGemini pf markdown apiKey =
     (if apiKey = [] then (Inl (Error ''Gemini API key not configured''), [])
      else (case generateContentWithBackoff pf of
              (Inl e, events) \<Rightarrow> (Inl e, events)
            | (Inr None, events) \<Rightarrow>
                (Inl (PlatformError ''Cannot read properties of undefined''), events)
            | (Inr (Some r), events) \<Rightarrow>
                if \<not> ok r
                then (Inl (Error (''Gemini API error: '' @ digitsOf (status r) @ '' - '' @ bodyText r)),
                      events)
                else (case bodyJson r of
                        InvalidJson m \<Rightarrow> (Inl (PlatformError m), events)
                      | MissingParts \<Rightarrow>
                          (Inl (Error ''Invalid response structure from Gemini API''), events)
                      | PartWithoutText \<Rightarrow>
                          (Inl (PlatformError ''Cannot read properties of undefined''), events)
                      | PartText improvedContent \<Rightarrow>
                          (Inr (Some (parseImprovedContent improvedContent)), events))))"

section \<open>Front matter and the background pipeline (src/background.js)\<close>

definition join :: "string \<Rightarrow> string list \<Rightarrow> string" where
  "join sep xs = (case xs of [] \<Rightarrow> [] | y # ys \<Rightarrow> y @ concat (map (\<lambda>z. sep @ z) ys))"

definition formatYamlArray :: "string list \<Rightarrow> string" where
  "formatYamlArray arr =
     (if arr = [] then ''[]'' else ''['' @ join '', '' (map escapeYaml arr) @ '']'')"

text \<open>\<^verbatim>\<open>summary.replace(/\n/g, "\n  ")\<close>.\<close>

definition indentLines :: "string \<Rightarrow> string" where
  "indentLines s = concat (map (\<lambda>c. if c = CHR 0x0A then [CHR 0x0A, CHR '' '', CHR '' ''] else [c]) s)"

definition nl :: string where
  "nl = [CHR 0x0A]"

definition unlines :: "string list \<Rightarrow> string" where
  "unlines ls = concat (map (\<lambda>l. l @ nl) ls)"

text \<open>
  The lines of the template literal of \<^verbatim>\<open>createMetadata\<close>, in order, each of them
  followed by a line feed in the rendered text. \<open>datePublished\<close> and \<open>hostname\<close> are the
  values the function has computed for \<^verbatim>\<open>datePublished\<close> and \<^verbatim>\<open>new URL(url).hostname\<close>.
\<close>

definition frontMatterLines ::
  "jsDate \<Rightarrow> PageContent \<Rightarrow> string \<Rightarrow> string \<Rightarrow> EnrichmentResult option
     \<Rightarrow> string option \<Rightarrow> string \<Rightarrow> string list" where
  "frontMatterLines captured pageContent url' category geminiData datePublished hostname =
     (let technologies' = (case geminiData of Some g \<Rightarrow> technologies g | None \<Rightarrow> []);
          programmingLanguages' = (case geminiData of Some g \<Rightarrow> programmingLanguages g | None \<Rightarrow> []);
          tags' = (case geminiData of Some g \<Rightarrow> tags g | None \<Rightarrow> []);
          keyConcepts' = (case geminiData of Some g \<Rightarrow> keyConcepts g | None \<Rightarrow> []);
          codeExamples' = (case geminiData of Some g \<Rightarrow> codeExamples g | None \<Rightarrow> False);
          difficultyLevel' = (case geminiData of
                                Some g \<Rightarrow> if difficultyLevel g = [] then ''unknown'' else difficultyLevel g
                              | None \<Rightarrow> ''unknown'');
          summary' = (case geminiData of Some g \<Rightarrow> summary g | None \<Rightarrow> [])
      in [''```yaml'',
          ''---'',
          ''title: '' @ escapeYaml (title pageContent),
          ''source: '' @ url',
          ''date_published: '' @ (case datePublished of
                                     None \<Rightarrow> ''unknown''
                                   | Some isoText \<Rightarrow> if isoText = [] then ''unknown'' else isoText),
          ''date_captured: '' @ toISOString captured,
          ''domain: '' @ hostname,
          ''author: '' @ escapeYaml (if author pageContent = [] then ''Unknown'' else author pageContent),
          ''category: '' @ category,
          ''technologies: '' @ formatYamlArray technologies',
          ''programming_languages: '' @ formatYamlArray programmingLanguages',
          ''tags: '' @ formatYamlArray tags',
          ''key_concepts: '' @ formatYamlArray keyConcepts',
          ''code_examples: '' @ (if codeExamples' then ''true'' else ''false''),
          ''difficulty_level: '' @ difficultyLevel',
          ''summary: |'',
          ''  '' @ indentLines summary',
          ''---'',
          ''```'',
          [],
          ''# '' @ title pageContent,
          []])"

text \<open>
  \<^verbatim>\<open>createMetadata(pageContent, url, category, geminiData = null)\<close>; \<open>captured\<close> is the
  \<^verbatim>\<open>new Date()\<close> of \<^verbatim>\<open>dateCaptured\<close>. \<^verbatim>\<open>toISOString\<close> throws on an invalid date
  (before the template is evaluated) and \<^verbatim>\<open>new URL\<close> on an invalid URL.
\<close>

definition createMetadata ::
  "platform \<Rightarrow> jsDate \<Rightarrow> PageContent \<Rightarrow> string \<Rightarrow> string \<Rightarrow> EnrichmentResult option
     \<Rightarrow> js_error + string" where
  "createMetadata pf captured pageContent url' category geminiData =
     (let datePublished = (case publicationDate pageContent of
                             None \<Rightarrow> Inr None
                           | Some p \<Rightarrow>
                               if p = [] then Inr None
                               else (case parseDate pf p of
                                       None \<Rightarrow> Inl (PlatformError ''Invalid time value'')
                                     | Some d \<Rightarrow> Inr (Some (toISOString d))))
      in case datePublished of
           Inl e \<Rightarrow> Inl e
         | Inr published \<Rightarrow>
             (case hostnameOf pf url' of
                None \<Rightarrow> Inl (PlatformError ''Invalid URL'')
              | Some hostname \<Rightarrow>
                  Inr (unlines (frontMatterLines captured pageContent url' category geminiData
                                  published hostname))))"

text \<open>
  \<^verbatim>\<open>TextEncoder.encode\<close> on code units below 256, and \<^verbatim>\<open>btoa\<close> on the char codes of a
  binary string.
\<close>

definition utf8Encode :: "string \<Rightarrow> nat list" where
  "utf8Encode s =
     concat (map (\<lambda>c. let n = (of_char c :: nat)
                       in if n < 128 then [n] else [192 + n div 64, 128 + n mod 64]) s)"

definition base64Char :: "nat \<Rightarrow> char" where
  "base64Char n = ''ABCDEFGHIJKLMNOPQRSTUVWXYZabcdefghijklmnopqrstuvwxyz0123456789+/'' ! n"

fun btoa :: "nat list \<Rightarrow> string" where
  "btoa [] = []"
| "btoa [a] = [base64Char (a div 4), base64Char (a mod 4 * 16), CHR ''='', CHR ''='']"
| "btoa [a, b] =
     [base64Char (a div 4), base64Char (a mod 4 * 16 + b div 16), base64Char (b mod 16 * 4), CHR ''='']"
| "btoa (a # b # c # rest) =
     [base64Char (a div 4), base64Char (a mod 4 * 16 + b div 16),
      base64Char (b mod 16 * 4 + c div 64), base64Char (c mod 64)] @ btoa rest"

definition chunkSize :: nat where
  "chunkSize = 8192"

text \<open>The chunked loop that builds \<^verbatim>\<open>binary\<close> from the encoded bytes.\<close>

function binaryLoop :: "nat list \<Rightarrow> nat \<Rightarrow> nat list" where
  "binaryLoop data i =
     (if i < length data then take chunkSize (drop i data) @ binaryLoop data (i + chunkSize)
      else [])"
  by pat_completeness auto
termination
  by (relation "measure (\<lambda>(data, i). length data - i)") (auto simp: chunkSize_def)

declare binaryLoop.simps [simp del]

definition dataUrl :: "string \<Rightarrow> string" where
  "dataUrl finalContent =
     ''data:text/markdown;charset=utf-8;base64,'' @ btoa (binaryLoop (utf8Encode finalContent) 0)"

record request =
  r_pageContent :: PageContent
  r_url :: string
  r_category :: string
  r_markdown :: string
  r_filename :: string
  r_apiKey :: string
  r_model :: string

text \<open>
  \<^verbatim>\<open>contentToUse\<close>: the content of the enrichment result, or the original markdown when
  that content is empty or white space only.
\<close>

definition contentToUse :: "string \<Rightarrow> EnrichmentResult \<Rightarrow> string" where
  "contentToUse markdown improved =
     (if content improved = [] \<or> length (trim (content improved)) = 0 then markdown
      else content improved)"

definition finalContentOf ::
  "platform \<Rightarrow> jsDate \<Rightarrow> request \<Rightarrow> EnrichmentResult option \<Rightarrow> js_error + string" where
  "finalContentOf pf captured req improvedMarkdown =
     (case improvedMarkdown of
        Some improved \<Rightarrow>
          (case createMetadata pf captured (r_pageContent req) (r_url req) (r_category req)
                  (Some improved) of
             Inl e \<Rightarrow> Inl e
           | Inr enrichedMetadata \<Rightarrow> Inr (enrichedMetadata @ contentToUse (r_markdown req) improved))
      | None \<Rightarrow>
          (case createMetadata pf captured (r_pageContent req) (r_url req) (r_category req) None of
             Inl e \<Rightarrow> Inl e
           | Inr basicMetadata \<Rightarrow> Inr (basicMetadata @ r_markdown req)))"

text \<open>
  \<^verbatim>\<open>processAndDownloadWithGemini(request)\<close>: the error rethrown by the \<^verbatim>\<open>catch\<close> block
  or normal completion, what the run did to the outside, and the history afterwards.
  \<open>timestamp\<close> is the clock reading of \<^verbatim>\<open>addExtractedUrl\<close>.
\<close>

definition processAndDownloadWithGemini ::
  "platform \<Rightarrow> jsDate \<Rightarrow> int \<Rightarrow> request \<Rightarrow> storage
     \<Rightarrow> (js_error + unit) \<times> effect list \<times> storage" where
  "processAndDownloadWithGemini pf captured timestamp req st =
     (case improveMarkdownWithGemini pf (r_markdown req) (r_apiKey req) of
        (result, events) \<Rightarrow>
          (case (case result of
                   Inl e \<Rightarrow> Inl e
                 | Inr improvedMarkdown \<Rightarrow> finalContentOf pf captured req improvedMarkdown) of
             Inr finalContent \<Rightarrow>
               (Inr (),
                events @
                [Download (dataUrl finalContent) (r_filename req) True,
                 StorageSet (getExtractedUrls (addExtractedUrl (r_url req) timestamp st)),
                 Notification ''Page Extraction Complete''
                   (''File '' @ [CHR 0x22] @ r_filename req @ [CHR 0x22]
                      @ '' has been downloaded successfully.''),
                 ProcessingComplete True (r_filename req)],
                addExtractedUrl (r_url req) timestamp st)
           | Inl e \<Rightarrow>
               (Inl e,
                events @
                [Notification ''Extraction Failed'' (''Error: '' @ message e),
                 ProcessingComplete False (message e)],
                st)))"

fun isDownload :: "effect \<Rightarrow> bool" where
  "isDownload (Download u f s) = True"
| "isDownload e = False"

definition downloadTriggered :: "effect list \<Rightarrow> bool" where
  "downloadTriggered events = list_ex isDownload events"

fun isFetch :: "effect \<Rightarrow> bool" where
  "isFetch (Fetch k) = True"
| "isFetch e = False"

text \<open>Example services and requests.\<close>

definition overloadedService :: platform where
  "overloadedService =
     \<lparr>fetch = (\<lambda>k. Response \<lparr>status = 503, bodyText = ''overloaded'', bodyJson = InvalidJson ''Unexpected token''\<rparr>),
      random = (\<lambda>k. 1 / 2),
      parseDate = (\<lambda>s. None),
      hostnameOf = (\<lambda>u. Some ''example.com'')\<rparr>"

definition blankContentService :: platform where
  "blankContentService =
     \<lparr>fetch = (\<lambda>k. Response \<lparr>status = 200, bodyText = [],
                              bodyJson = PartText (''## Content'' @ [CHR 0x0A] @ ''   '')\<rparr>),
      random = (\<lambda>k. 1 / 2),
      parseDate = (\<lambda>s. None),
      hostnameOf = (\<lambda>u. Some ''example.com'')\<rparr>"

definition exampleRequest :: request where
  "exampleRequest =
     \<lparr>r_pageContent = tipsPage, r_url = ''https://example.com/programming/tips'',
      r_category = ''programming'', r_markdown = ''Some text.'',
      r_filename = ''2026-01-10_programming_c___tips__part__1_.md'',
      r_apiKey = ''key'', r_model = ''gemini-2.5-pro''\<rparr>"

definition emptyMarkdownRequest :: request where
  "emptyMarkdownRequest = exampleRequest\<lparr>r_markdown := []\<rparr>"

section \<open>Notions used to state the properties\<close>

definition statusOf :: "fetchOutcome \<Rightarrow> nat option" where
  "statusOf outcome = (case outcome of Response r \<Rightarrow> Some (status r) | NetworkError m \<Rightarrow> None)"

definition responseOf :: "fetchOutcome \<Rightarrow> response option" where
  "responseOf outcome = (case outcome of Response r \<Rightarrow> Some r | NetworkError m \<Rightarrow> None)"

text \<open>
  The fallback parse of one field as the specification words it: each pattern gives a
  candidate list, empty when the pattern does not match or its group is empty or "none";
  the field is the first candidate that is not empty.
\<close>

definition fallbackCandidate :: "item list \<Rightarrow> string \<Rightarrow> string list" where
  "fallbackCandidate pattern fullText =
     (case regexMatch pattern fullText of
        None \<Rightarrow> []
      | Some g \<Rightarrow> if g = [] \<or> toLowerCase g = ''none'' then []
                  else cleanItems (fallbackItems g))"

definition fallbackField_spec :: "item list list \<Rightarrow> string \<Rightarrow> string list" where
  "fallbackField_spec patterns' fullText =
     (case find (\<lambda>found. found \<noteq> []) (map (\<lambda>pattern. fallbackCandidate pattern fullText) patterns') of
        Some found \<Rightarrow> found
      | None \<Rightarrow> [])"

definition metadataHeader :: string where
  "metadataHeader = ''## Metadata'' @ [CHR 0x0A]"

definition contentHeader :: string where
  "contentHeader = [CHR 0x0A, CHR 0x0A] @ ''## Content''"

text \<open>Further example inputs.\<close>

definition noKeyRequest :: request where
  "noKeyRequest = exampleRequest\<lparr>r_apiKey := []\<rparr>"

definition blankResult :: EnrichmentResult where
  "blankResult = \<lparr>technologies = [], programmingLanguages = [], tags = [], keyConcepts = [],
                   codeExamples = False, difficultyLevel = ''intermediate'', summary = [],
                   content = []\<rparr>"

text \<open>
  A page whose title holds a colon and double quotes, published on a date that parses, and
  an enrichment result with a list item that needs quoting, an empty difficulty level and a
  summary of two lines.
\<close>

definition publishingService :: platform where
  "publishingService =
     \<lparr>fetch = (\<lambda>k. NetworkError ''Failed to fetch''),
      random = (\<lambda>k. 1 / 2),
      parseDate = (\<lambda>s. if s = ''2026-01-10T12:00:00.000Z'' then Some jan10 else None),
      hostnameOf = (\<lambda>u. Some ''example.com'')\<rparr>"

definition guidePage :: PageContent where
  "guidePage = \<lparr>title = ''Say '' @ [CHR 0x22] @ ''hi'' @ [CHR 0x22] @ '': a guide'',
                html = ''<p>x</p>'', images = [], author = [],
                publicationDate = Some ''2026-01-10T12:00:00.000Z''\<rparr>"

definition guideEnrichment :: EnrichmentResult where
  "guideEnrichment =
     \<lparr>technologies = [''React'', ''Node.js''], programmingLanguages = [''C#''],
      tags = [''web: api'', ''plain''], keyConcepts = [], codeExamples = True,
      difficultyLevel = [], summary = ''Line one'' @ [CHR 0x0A] @ ''Line two'',
      content = ''Body''\<rparr>"

text \<open>
  The two fallback patterns of a list field, read at one position of the text. The label is
  given by its words in lower case, compared without case and separated by one underscore or
  white-space character: \<^verbatim>\<open>technologie\<close>, \<^verbatim>\<open>programming language\<close>, \<^verbatim>\<open>tag\<close>, \<^verbatim>\<open>key concept\<close>.
  \<open>afterLabel_spec\<close> is the text after the label, if the label stands at the position.
\<close>

fun afterLabel_spec :: "string list \<Rightarrow> string \<Rightarrow> string option" where
  "afterLabel_spec [] s = Some s"
| "afterLabel_spec (w # ws) s =
     (if toLowerCase (take (length w) s) = w
      then (case ws of
              [] \<Rightarrow> Some (drop (length w) s)
            | v # vs \<Rightarrow>
                (case drop (length w) s of
                   [] \<Rightarrow> None
                 | c # r \<Rightarrow> if c = CHR ''_'' \<or> isWhiteSpace c then afterLabel_spec ws r else None))
      else None)"

definition optionalChar_spec :: "(char \<Rightarrow> bool) \<Rightarrow> string \<Rightarrow> string" where
  "optionalChar_spec p s = (case s of [] \<Rightarrow> [] | c # r \<Rightarrow> if p c then r else s)"

text \<open>
  After the label: an optional \<^verbatim>\<open>s\<close> of the plural, an optional colon, and white space
  (line feeds included) are skipped.
\<close>

definition valueStart_spec :: "string \<Rightarrow> string" where
  "valueStart_spec r =
     dropWhile isWhiteSpace
       (optionalChar_spec (\<lambda>c. c = CHR '':'')
          (optionalChar_spec (\<lambda>c. c = CHR ''s'' \<or> c = CHR ''S'') r))"

text \<open>
  The bracketed list: what follows must be an opening bracket and, later, a closing bracket;
  the match is the text between them.
\<close>

definition bracketedList_spec :: "string list \<Rightarrow> string \<Rightarrow> string option" where
  "bracketedList_spec labelWords s =
     (case afterLabel_spec labelWords s of
        None \<Rightarrow> None
      | Some r \<Rightarrow>
          (case valueStart_spec r of
             [] \<Rightarrow> None
           | c # t \<Rightarrow> if c = CHR ''['' \<and> CHR '']'' \<in> set t
                      then Some (takeWhile (\<lambda>x. x \<noteq> CHR '']'') t) else None))"

text \<open>
  The bare line: the match is what follows, up to the end of its line. When nothing follows
  (the text ends with the optional \<^verbatim>\<open>s\<close>, the optional colon and white space), the expression
  still needs one character that is not a line feed, and takes the last such character after
  the label, if there is one.
\<close>

definition bareLine_spec :: "string list \<Rightarrow> string \<Rightarrow> string option" where
  "bareLine_spec labelWords s =
     (case afterLabel_spec labelWords s of
        None \<Rightarrow> None
      | Some r \<Rightarrow>
          (case valueStart_spec r of
             c # t \<Rightarrow> Some (takeWhile (\<lambda>x. x \<noteq> CHR 0x0A) (c # t))
           | [] \<Rightarrow>
               (case filter (\<lambda>x. x \<noteq> CHR 0x0A) r of
                  [] \<Rightarrow> None
                | c # cs \<Rightarrow> Some [last (c # cs)])))"

text \<open>A search of the text: the match at the first position, from the left, that has one.\<close>

definition leftmostMatch_spec :: "(string \<Rightarrow> string option) \<Rightarrow> string \<Rightarrow> string option" where
  "leftmostMatch_spec matchAt s =
     (case find (\<lambda>rest. matchAt rest \<noteq> None) (rev (suffixes s)) of
        None \<Rightarrow> None
      | Some rest \<Rightarrow> matchAt rest)"

text \<open>
  The items of a match: none when there is no match or the match is empty or "none";
  otherwise the match, without its square brackets when it has an opening one, is split at
  the commas, the items are trimmed, and the empty items and the items "none" are dropped.
  The value of a field is given by the bracketed list when that has items, and by the bare
  line otherwise.
\<close>

definition listItems_spec :: "string option \<Rightarrow> string list" where
  "listItems_spec found =
     (case found of
        None \<Rightarrow> []
      | Some g \<Rightarrow>
          if g = [] \<or> toLowerCase g = ''none'' then []
          else filter (\<lambda>x. x \<noteq> [] \<and> toLowerCase x \<noteq> ''none'')
                 (map trim (splitComma (if CHR ''['' \<in> set g
                                        then filter (\<lambda>c. c \<noteq> CHR ''['' \<and> c \<noteq> CHR '']'') g
                                        else g))))"

definition fieldValue_spec :: "string list \<Rightarrow> string \<Rightarrow> string list" where
  "fieldValue_spec labelWords fullText =
     (let bracketed = listItems_spec (leftmostMatch_spec (bracketedList_spec labelWords) fullText);
          bare = listItems_spec (leftmostMatch_spec (bareLine_spec labelWords) fullText)
      in if bracketed \<noteq> [] then bracketed else bare)"

text \<open>Two responses without the metadata structure, with bracketed lists and with bare lines.\<close>

definition bracketedResponse :: string where
  "bracketedResponse =
     ''technologie [React, Vue]'' @ [CHR 0x0A] @
     ''programming languages: [Go]'' @ [CHR 0x0A] @
     ''TAGS:[rest, none, Api ]'' @ [CHR 0x0A] @
     ''Key_Concept[hooks]''"

definition bareResponse :: string where
  "bareResponse =
     ''Technologies: React, Vue'' @ [CHR 0x0A] @
     ''Programming_Languages: Go, C'' @ [CHR 0x0A] @
     ''Tags: api, security'' @ [CHR 0x0A] @
     ''Key Concepts: hooks, state''"

section \<open>Facts about the history store\<close>

lemma findIndex_None_iff: "findIndex P xs = None \<longleftrightarrow> (\<forall>x \<in> set xs. \<not> P x)"
  by (induction xs) auto

lemma findIndex_Some:
  "findIndex P xs = Some i \<Longrightarrow> i < length xs \<and> P (xs ! i) \<and> (\<forall>j < i. \<not> P (xs ! j))"
proof (induction xs arbitrary: i)
  case Nil
  then show ?case by simp
next
  case (Cons x xs)
  show ?case
  proof (cases "P x")
    case True
    with Cons.prems show ?thesis by simp
  next
    case False
    with Cons.prems obtain k where k: "findIndex P xs = Some k" "i = Suc k"
      by auto
    from Cons.IH [OF k(1)] False k(2) show ?thesis
      by (auto simp: less_Suc_eq_0_disj)
  qed
qed

lemma hasUrl_iff: "hasUrl u urls \<longleftrightarrow> u \<in> url ` set urls"
  unfolding hasUrl_def using findIndex_None_iff [of "\<lambda>item. url item = u" urls] by auto

lemma getExtractedUrls_Some [simp]: "getExtractedUrls (Some urls) = urls"
  by (simp add: getExtractedUrls_def)

lemma getExtractedUrls_None [simp]: "getExtractedUrls None = []"
  by (simp add: getExtractedUrls_def)

lemma length_addExtractedUrl: "length (getExtractedUrls (addExtractedUrl u t st)) \<le> maxUrls"
  by (simp add: addExtractedUrl_def Let_def)

lemma addExtractedUrl_absent:
  assumes "\<not> hasUrl u (getExtractedUrls st)"
  shows "getExtractedUrls (addExtractedUrl u t st) =
           (if length (getExtractedUrls st) < maxUrls
            then getExtractedUrls st @ [newEntry u t]
            else take maxUrls (sortByLastExtracted (getExtractedUrls st @ [newEntry u t])))"
  using assms by (auto simp: addExtractedUrl_def Let_def hasUrl_def)

lemma addExtractedUrl_present:
  assumes "findIndex (\<lambda>item. url item = u) (getExtractedUrls st) = Some i"
    and "length (getExtractedUrls st) \<le> maxUrls"
  shows "getExtractedUrls (addExtractedUrl u t st) =
           (getExtractedUrls st)[i := bumpEntry t (getExtractedUrls st ! i)]"
  using assms by (simp add: addExtractedUrl_def Let_def)

lemma recordAll_append: "recordAll (xs @ ys) st = recordAll ys (recordAll xs st)"
  by (induction xs st rule: recordAll.induct) auto

lemma url_newEntry [simp]: "url (newEntry u t) = u"
  by (simp add: newEntry_def)

lemma recordAll_fresh:
  assumes "distinct (map fst uts)"
    and "\<forall>u \<in> fst ` set uts. \<not> hasUrl u (getExtractedUrls st)"
    and "length (getExtractedUrls st) + length uts \<le> maxUrls"
  shows "getExtractedUrls (recordAll uts st) =
           getExtractedUrls st @ map (\<lambda>(u, t). newEntry u t) uts"
  using assms
proof (induction uts st rule: recordAll.induct)
  case (1 st)
  then show ?case by simp
next
  case (2 u t rest st)
  have absent: "\<not> hasUrl u (getExtractedUrls st)" using "2.prems"(2) by simp
  have small: "length (getExtractedUrls st) < maxUrls" using "2.prems"(3) by simp
  have step: "getExtractedUrls (addExtractedUrl u t st) = getExtractedUrls st @ [newEntry u t]"
    using addExtractedUrl_absent [OF absent] small by simp
  have "\<forall>v \<in> fst ` set rest. \<not> hasUrl v (getExtractedUrls (addExtractedUrl u t st))"
    using "2.prems"(1,2) by (auto simp: step hasUrl_iff)
  moreover have "distinct (map fst rest)" using "2.prems"(1) by simp
  moreover have "length (getExtractedUrls (addExtractedUrl u t st)) + length rest \<le> maxUrls"
    using "2.prems"(3) by (simp add: step)
  ultimately show ?case using "2.IH" by (simp add: step)
qed

lemma sort_key_snoc_least:
  fixes f :: "'a \<Rightarrow> int"
  assumes "\<forall>y \<in> set xs. f x < f y"
  shows "sort_key f (xs @ [x]) = x # sort_key f xs"
  using assms
proof (induction xs)
  case Nil
  then show ?case by simp
next
  case (Cons y ys)
  then have "sort_key f (ys @ [x]) = x # sort_key f ys" and "\<not> f y \<le> f x"
    by auto
  then show ?case by simp
qed

lemma sortByLastExtracted_newest:
  assumes "\<forall>e \<in> set urls. lastExtracted e < lastExtracted x"
  shows "sortByLastExtracted (urls @ [x]) = x # sortByLastExtracted urls"
  unfolding sortByLastExtracted_def
  by (rule sort_key_snoc_least) (use assms in auto)

lemma set_sortByLastExtracted [simp]: "set (sortByLastExtracted urls) = set urls"
  by (simp add: sortByLastExtracted_def)

lemma length_sortByLastExtracted [simp]: "length (sortByLastExtracted urls) = length urls"
  by (simp add: sortByLastExtracted_def)

lemma distinct_sortByLastExtracted [simp]: "distinct (sortByLastExtracted urls) = distinct urls"
  by (simp add: sortByLastExtracted_def)

lemma sortByLastExtracted_descending:
  assumes "i \<le> j" "j < length urls"
  shows "lastExtracted (sortByLastExtracted urls ! j) \<le> lastExtracted (sortByLastExtracted urls ! i)"
proof -
  have "sorted (map (\<lambda>item. - lastExtracted item) (sortByLastExtracted urls))"
    by (simp add: sortByLastExtracted_def)
  from sorted_nth_mono [OF this, of i j] assms show ?thesis by simp
qed

lemma filter_absent: "\<not> hasUrl u urls \<Longrightarrow> filter (\<lambda>e. url e = u) urls = []"
  by (auto simp: hasUrl_iff filter_empty_conv)

lemma filter_take_absent:
  "\<not> hasUrl u urls \<Longrightarrow> filter (\<lambda>e. url e = u) (take n (sortByLastExtracted urls)) = []"
  by (auto simp: hasUrl_iff filter_empty_conv dest: in_set_takeD)

lemma first_record_kept:
  assumes absent: "\<not> hasUrl u (getExtractedUrls st)"
    and room: "length (getExtractedUrls st) < maxUrls
               \<or> (\<forall>e \<in> set (getExtractedUrls st). lastExtracted e < t)"
  shows "filter (\<lambda>e. url e = u) (getExtractedUrls (addExtractedUrl u t st)) = [newEntry u t]"
proof (cases "length (getExtractedUrls st) < maxUrls")
  case True
  then show ?thesis
    using addExtractedUrl_absent [OF absent, of t] filter_absent [OF absent] by simp
next
  case False
  with room have newest: "\<forall>e \<in> set (getExtractedUrls st). lastExtracted e < lastExtracted (newEntry u t)"
    by (simp add: newEntry_def)
  have "getExtractedUrls (addExtractedUrl u t st) =
          take maxUrls (newEntry u t # sortByLastExtracted (getExtractedUrls st))"
    using addExtractedUrl_absent [OF absent, of t] False
    by (simp add: sortByLastExtracted_newest [OF newest])
  then show ?thesis
    using filter_take_absent [OF absent] by (simp add: maxUrls_def take_Cons')
qed

lemma findIndex_unique:
  assumes "filter P xs = [x]"
  shows "\<exists>i. findIndex P xs = Some i \<and> xs ! i = x \<and> i < length xs"
  using assms
proof (induction xs)
  case Nil
  then show ?case by simp
next
  case (Cons y ys)
  then show ?case by (cases "P y") auto
qed

lemma filter_update_unique:
  assumes "filter P xs = [x]" "findIndex P xs = Some i" "P y"
  shows "filter P (xs[i := y]) = [y]"
  using assms
proof (induction xs arbitrary: i)
  case Nil
  then show ?case by simp
next
  case (Cons z zs)
  show ?case
  proof (cases "P z")
    case True
    with Cons.prems show ?thesis by simp
  next
    case False
    with Cons.prems obtain k where "findIndex P zs = Some k" "i = Suc k" by auto
    with Cons False show ?thesis by simp
  qed
qed

lemma second_record_bumps:
  assumes one: "filter (\<lambda>e. url e = u) (getExtractedUrls st) = [x]"
    and le: "length (getExtractedUrls st) \<le> maxUrls"
  shows "filter (\<lambda>e. url e = u) (getExtractedUrls (addExtractedUrl u t st)) = [bumpEntry t x]
         \<and> length (getExtractedUrls (addExtractedUrl u t st)) = length (getExtractedUrls st)"
proof -
  from findIndex_unique [OF one] obtain i where
    i: "findIndex (\<lambda>e. url e = u) (getExtractedUrls st) = Some i" "getExtractedUrls st ! i = x"
    by blast
  have "x \<in> set (filter (\<lambda>e. url e = u) (getExtractedUrls st))" using one by simp
  then have "url x = u" by simp
  then have "url (bumpEntry t x) = u" by (simp add: bumpEntry_def)
  with filter_update_unique [OF one i(1), of "bumpEntry t x"] addExtractedUrl_present [OF i(1) le, of t] i(2)
  show ?thesis by simp
qed

lemma distinct_newEntries:
  "distinct (map fst uts) \<Longrightarrow> distinct (map (\<lambda>(u, t). newEntry u t) uts)"
proof -
  assume d: "distinct (map fst uts)"
  have "map url (map (\<lambda>(u, t). newEntry u t) uts) = map fst uts"
    by (induction uts) auto
  with d have "distinct (map url (map (\<lambda>(u, t). newEntry u t) uts))" by (simp only:)
  then show ?thesis by (rule distinct_map [THEN iffD1, THEN conjunct1])
qed

lemma record_101:
  assumes d: "distinct (map fst uts)" and len: "length uts = Suc maxUrls"
    and empty: "getExtractedUrls st = []"
  shows "getExtractedUrls (recordAll uts st)
           = take maxUrls (sortByLastExtracted (map (\<lambda>(u, t). newEntry u t) uts))"
proof -
  from len obtain xs p where uts: "uts = xs @ [p]" and lxs: "length xs = maxUrls"
    by (metis length_Suc_conv_rev)
  obtain u t where p: "p = (u, t)" by (cases p)
  let ?mk = "\<lambda>(u, t). newEntry u t"
  have pre: "getExtractedUrls (recordAll xs st) = map ?mk xs"
    using recordAll_fresh [of xs st] d empty lxs by (simp add: uts hasUrl_iff)
  have "u \<notin> fst ` set xs" using d by (simp add: uts p)
  then have absent: "\<not> hasUrl u (getExtractedUrls (recordAll xs st))"
    by (force simp: pre hasUrl_iff)
  show ?thesis
    using addExtractedUrl_absent [OF absent, of t] lxs
    by (simp add: uts p recordAll_append pre)
qed

lemma take_sorted_top:
  assumes d: "distinct all" and len: "length all = Suc n"
  shows "\<exists>ev \<in> set all. set (take n (sortByLastExtracted all)) = set all - {ev}
           \<and> (\<forall>e \<in> set (take n (sortByLastExtracted all)). lastExtracted ev \<le> lastExtracted e)"
proof -
  let ?S = "sortByLastExtracted all"
  let ?ev = "?S ! n"
  have lS: "length ?S = Suc n" using len by simp
  have dS: "distinct ?S" using d by simp
  have split: "take n ?S @ [?ev] = ?S"
    using take_Suc_conv_app_nth [of n ?S] lS by simp
  have ev_in: "?ev \<in> set all"
    using lS nth_mem [of n ?S] by simp
  have "set (take n ?S @ [?ev]) = set ?S"
    by (simp only: split)
  then have "set ?S = set (take n ?S) \<union> {?ev}"
    by simp
  moreover have "distinct (take n ?S @ [?ev])"
    using dS by (simp only: split)
  then have "?ev \<notin> set (take n ?S)"
    by simp
  ultimately have sets: "set (take n ?S) = set all - {?ev}" by auto
  have "\<forall>e \<in> set (take n ?S). lastExtracted ?ev \<le> lastExtracted e"
  proof
    fix e assume "e \<in> set (take n ?S)"
    then obtain i where i: "i < n" "e = ?S ! i"
      using lS by (auto simp: in_set_conv_nth)
    with sortByLastExtracted_descending [of i n all] len show "lastExtracted ?ev \<le> lastExtracted e"
      by simp
  qed
  with ev_in sets show ?thesis by blast
qed

text \<open>
  Claim C4. After any call of \<^verbatim>\<open>addExtractedUrl\<close>, whatever the stored list was, the
  stored list has at most 100 entries. Recording 101 pairwise distinct URLs one after the other,
  starting from an empty history, leaves exactly 100 entries: the first 100 of the 101 new
  entries sorted by \<^verbatim>\<open>lastExtracted\<close>, most recent first. Exactly one entry is evicted, and
  no retained entry is older than it.
\<close>

theorem history_bounded:
  "length (getExtractedUrls (addExtractedUrl u t st)) \<le> 100
   \<and> (distinct (map fst uts) \<and> length uts = 101 \<and> getExtractedUrls st0 = [] \<longrightarrow>
        length (getExtractedUrls (recordAll uts st0)) = 100
        \<and> getExtractedUrls (recordAll uts st0)
            = take 100 (sortByLastExtracted (map (\<lambda>(u, t). newEntry u t) uts))
        \<and> (\<exists>evicted \<in> set (map (\<lambda>(u, t). newEntry u t) uts).
              set (getExtractedUrls (recordAll uts st0))
                = set (map (\<lambda>(u, t). newEntry u t) uts) - {evicted}
              \<and> (\<forall>kept \<in> set (getExtractedUrls (recordAll uts st0)).
                    lastExtracted evicted \<le> lastExtracted kept)))"
proof -
  have bound: "length (getExtractedUrls (addExtractedUrl u t st)) \<le> 100"
    using length_addExtractedUrl [of u t st] by (simp add: maxUrls_def)
  have seq: "length (getExtractedUrls (recordAll uts st0)) = 100
        \<and> getExtractedUrls (recordAll uts st0)
            = take 100 (sortByLastExtracted (map (\<lambda>(u, t). newEntry u t) uts))
        \<and> (\<exists>evicted \<in> set (map (\<lambda>(u, t). newEntry u t) uts).
              set (getExtractedUrls (recordAll uts st0))
                = set (map (\<lambda>(u, t). newEntry u t) uts) - {evicted}
              \<and> (\<forall>kept \<in> set (getExtractedUrls (recordAll uts st0)).
                    lastExtracted evicted \<le> lastExtracted kept))"
    if d: "distinct (map fst uts)" and len: "length uts = 101" and e: "getExtractedUrls st0 = []"
  proof -
    let ?all = "map (\<lambda>(u, t). newEntry u t) uts"
    have eq: "getExtractedUrls (recordAll uts st0) = take 100 (sortByLastExtracted ?all)"
      using record_101 [OF d _ e] len by (simp add: maxUrls_def)
    have "length ?all = Suc 100" using len by simp
    from take_sorted_top [OF distinct_newEntries [OF d] this] len
    show ?thesis by (simp add: eq)
  qed
  from bound seq show ?thesis by blast
qed

lemma distinct_hundredAndOne: "distinct (map fst hundredAndOne)"
  by (simp add: hundredAndOne_def distinct_map comp_def inj_on_def)

theorem history_bounded_witness:
  "length (getExtractedUrls (addExtractedUrl ''https://a.test/'' 30 smallHistory)) \<le> 100
   \<and> distinct (map fst hundredAndOne) \<and> length hundredAndOne = 101
   \<and> length (getExtractedUrls (recordAll hundredAndOne None)) = 100"
proof -
  have len: "length hundredAndOne = 101" by (simp add: hundredAndOne_def)
  have e: "getExtractedUrls None = []" by simp
  note h = history_bounded [of "''https://a.test/''" 30 smallHistory hundredAndOne None]
  have a: "length (getExtractedUrls (addExtractedUrl ''https://a.test/'' 30 smallHistory)) \<le> 100"
    using h by (rule conjunct1)
  have "distinct (map fst hundredAndOne) \<and> length hundredAndOne = 101 \<and> getExtractedUrls None = []"
    using distinct_hundredAndOne len e by blast
  with h [THEN conjunct2] have "length (getExtractedUrls (recordAll hundredAndOne None)) = 100"
    by blast
  with a distinct_hundredAndOne len show ?thesis by blast
qed

lemma insort_key_before_last:
  fixes f :: "'a \<Rightarrow> int"
  assumes "f y \<le> f x"
  shows "insort_key f y (zs @ [x]) = insort_key f y zs @ [x]"
  using assms by (induction zs) auto

lemma sort_key_snoc_greatest:
  fixes f :: "'a \<Rightarrow> int"
  assumes "\<forall>y \<in> set xs. f y \<le> f x"
  shows "sort_key f (xs @ [x]) = sort_key f xs @ [x]"
  using assms
proof (induction xs)
  case Nil
  then show ?case by simp
next
  case (Cons y ys)
  then have "sort_key f (ys @ [x]) = sort_key f ys @ [x]" and "f y \<le> f x"
    by auto
  then show ?case by (simp add: insort_key_before_last)
qed

lemma record_evicted_at_once:
  assumes absent: "\<not> hasUrl u (getExtractedUrls st)"
    and full: "length (getExtractedUrls st) = maxUrls"
    and stale: "\<forall>e \<in> set (getExtractedUrls st). t \<le> lastExtracted e"
  shows "getExtractedUrls (addExtractedUrl u t st) = sortByLastExtracted (getExtractedUrls st)"
proof -
  have "sortByLastExtracted (getExtractedUrls st @ [newEntry u t])
          = sortByLastExtracted (getExtractedUrls st) @ [newEntry u t]"
    unfolding sortByLastExtracted_def
    by (rule sort_key_snoc_greatest) (use stale in \<open>simp add: newEntry_def\<close>)
  then show ?thesis
    using addExtractedUrl_absent [OF absent, of t] full by simp
qed

lemma fullHistory_facts:
  "length (getExtractedUrls fullHistory) = maxUrls"
  "\<forall>e \<in> set (getExtractedUrls fullHistory). 1000 \<le> lastExtracted e"
  "\<not> hasUrl ''b'' (getExtractedUrls fullHistory)"
    by (auto simp: fullHistory_def maxUrls_def hasUrl_iff)

text \<open>
  Claim C5 as stated fails when the history is full and the clock reading is not later than
  the stored timestamps: the pushed entry sorts last and is cut off by the trim in the same
  call, so the URL is still absent afterwards, also after a second recording.
\<close>

theorem upsert_counterexample:
  "\<not> hasUrl ''b'' (getExtractedUrls fullHistory)
   \<and> \<not> hasUrl ''b'' (getExtractedUrls (addExtractedUrl ''b'' 500 fullHistory))
   \<and> \<not> hasUrl ''b'' (getExtractedUrls (addExtractedUrl ''b'' 501 (addExtractedUrl ''b'' 500 fullHistory)))"
proof -
  have first: "getExtractedUrls (addExtractedUrl ''b'' 500 fullHistory)
                 = sortByLastExtracted (getExtractedUrls fullHistory)"
    using fullHistory_facts(2)
    by (intro record_evicted_at_once fullHistory_facts) auto
  have absent1: "\<not> hasUrl ''b'' (getExtractedUrls (addExtractedUrl ''b'' 500 fullHistory))"
    using fullHistory_facts(3) by (simp add: first hasUrl_iff)
  have "getExtractedUrls (addExtractedUrl ''b'' 501 (addExtractedUrl ''b'' 500 fullHistory))
          = sortByLastExtracted (getExtractedUrls (addExtractedUrl ''b'' 500 fullHistory))"
    using fullHistory_facts(1,2)
    by (intro record_evicted_at_once absent1) (auto simp: first)
  then have absent2:
    "\<not> hasUrl ''b'' (getExtractedUrls (addExtractedUrl ''b'' 501 (addExtractedUrl ''b'' 500 fullHistory)))"
    using absent1 by (simp add: hasUrl_iff)
  from fullHistory_facts(3) absent1 absent2 show ?thesis by blast
qed

lemma insort_key_before:
  fixes f :: "'a \<Rightarrow> int"
  assumes "f y \<le> f x"
  shows "insort_key f y (as @ x # bs) = insort_key f y as @ x # bs"
  using assms by (induction as) auto

lemma insort_key_after:
  fixes f :: "'a \<Rightarrow> int"
  assumes "\<forall>a \<in> set as. f a < f y" "f x < f y"
  shows "insort_key f y (as @ x # bs) = as @ x # insort_key f y bs"
  using assms by (induction as) auto

lemma sort_key_snoc_split:
  fixes f :: "'a \<Rightarrow> int"
  shows "sort_key f (xs @ [x]) =
           filter (\<lambda>y. f y \<le> f x) (sort_key f xs) @ x # filter (\<lambda>y. f x < f y) (sort_key f xs)"
proof (induction xs)
  case Nil
  then show ?case by simp
next
  case (Cons y ys)
  let ?S = "sort_key f ys"
  have sorted: "sorted (map f ?S)" by simp
  show ?case
  proof (cases "f y \<le> f x")
    case True
    have "filter (\<lambda>z. f z \<le> f x) (insort_key f y ?S) = insort_key f y (filter (\<lambda>z. f z \<le> f x) ?S)"
      using sorted True by (simp add: filter_insort)
    moreover have "filter (\<lambda>z. f x < f z) (insort_key f y ?S) = filter (\<lambda>z. f x < f z) ?S"
      using True by (simp add: filter_insort_triv)
    ultimately show ?thesis
      using Cons.IH True by (simp add: insort_key_before)
  next
    case False
    have "filter (\<lambda>z. f z \<le> f x) (insort_key f y ?S) = filter (\<lambda>z. f z \<le> f x) ?S"
      using False by (simp add: filter_insort_triv)
    moreover have "filter (\<lambda>z. f x < f z) (insort_key f y ?S) = insort_key f y (filter (\<lambda>z. f x < f z) ?S)"
      using sorted False by (simp add: filter_insort)
    moreover have "\<forall>a \<in> set (filter (\<lambda>z. f z \<le> f x) ?S). f a < f y"
      using False by auto
    ultimately show ?thesis
      using Cons.IH False by (simp add: insort_key_after)
  qed
qed

lemma first_record_exact:
  assumes absent: "\<not> hasUrl u (getExtractedUrls st)"
  shows "filter (\<lambda>e. url e = u) (getExtractedUrls (addExtractedUrl u t st)) =
           (if length (filter (\<lambda>e. t \<le> lastExtracted e) (getExtractedUrls st)) < maxUrls
            then [newEntry u t] else [])"
proof (cases "length (getExtractedUrls st) < maxUrls")
  case True
  have "length (filter (\<lambda>e. t \<le> lastExtracted e) (getExtractedUrls st)) < maxUrls"
    using True length_filter_le [of "\<lambda>e. t \<le> lastExtracted e" "getExtractedUrls st"]
    by linarith
  then show ?thesis
    using addExtractedUrl_absent [OF absent, of t] filter_absent [OF absent] True by simp
next
  case False
  let ?urls = "getExtractedUrls st"
  let ?x = "newEntry u t"
  let ?S = "sortByLastExtracted ?urls"
  let ?A = "filter (\<lambda>e. t \<le> lastExtracted e) ?S"
  let ?B = "filter (\<lambda>e. lastExtracted e < t) ?S"
  have split: "sortByLastExtracted (?urls @ [?x]) = ?A @ ?x # ?B"
    using sort_key_snoc_split [of "\<lambda>item. - lastExtracted item" ?urls ?x]
    by (simp add: sortByLastExtracted_def newEntry_def)
  have lenA: "length ?A = length (filter (\<lambda>e. t \<le> lastExtracted e) ?urls)"
    by (simp add: sortByLastExtracted_def filter_sort)
  have noA: "filter (\<lambda>e. url e = u) (take n ?A) = []" for n
    using absent by (auto simp: hasUrl_iff filter_empty_conv dest!: in_set_takeD)
  have noB: "filter (\<lambda>e. url e = u) (take n ?B) = []" for n
    using absent by (auto simp: hasUrl_iff filter_empty_conv dest!: in_set_takeD)
  have res: "getExtractedUrls (addExtractedUrl u t st) = take maxUrls (?A @ ?x # ?B)"
    using addExtractedUrl_absent [OF absent, of t] False by (simp add: split)
  show ?thesis
  proof (cases "length ?A < maxUrls")
    case True
    then obtain k where k: "maxUrls - length ?A = Suc k"
      by (cases "maxUrls - length ?A") auto
    have "take maxUrls (?A @ ?x # ?B) = ?A @ ?x # take k ?B"
      using True k by simp
    then show ?thesis
      using True noA [of "length ?A"] noB [of k] by (simp add: res lenA [symmetric])
  next
    case False
    then have "take maxUrls (?A @ ?x # ?B) = take maxUrls ?A" by simp
    then show ?thesis
      using False noA [of maxUrls] by (simp add: res lenA [symmetric])
  qed
qed

text \<open>
  Claim C5, amended. For a URL that is absent from the history, recorded at clock reading
  \<^verbatim>\<open>t1\<close>: the URL has an entry afterwards exactly when fewer than 100 stored entries have a
  \<^verbatim>\<open>lastExtracted\<close> at or after \<^verbatim>\<open>t1\<close>. That is so whenever the history holds fewer than 100
  entries, and for a history of exactly 100 entries it is so exactly when some stored entry is
  older than \<^verbatim>\<open>t1\<close>. In that case the first recording leaves exactly one entry for the URL,
  with count 1 and both timestamps equal to \<^verbatim>\<open>t1\<close>; a second recording at \<^verbatim>\<open>t2\<close> leaves exactly
  one entry for the URL, with count 2, the first timestamp kept and \<^verbatim>\<open>lastExtracted = t2\<close>, and
  does not change the number of entries.
\<close>

theorem upsert_by_url:
  assumes absent: "\<not> hasUrl u (getExtractedUrls st)"
  shows "(hasUrl u (getExtractedUrls (addExtractedUrl u t1 st))
            \<longleftrightarrow> length (filter (\<lambda>e. t1 \<le> lastExtracted e) (getExtractedUrls st)) < 100)
         \<and> (length (getExtractedUrls st) < 100 \<longrightarrow>
               hasUrl u (getExtractedUrls (addExtractedUrl u t1 st)))
         \<and> (length (getExtractedUrls st) = 100 \<longrightarrow>
               (hasUrl u (getExtractedUrls (addExtractedUrl u t1 st))
                  \<longleftrightarrow> (\<exists>e \<in> set (getExtractedUrls st). lastExtracted e < t1)))
         \<and> (length (filter (\<lambda>e. t1 \<le> lastExtracted e) (getExtractedUrls st)) < 100 \<longrightarrow>
               filter (\<lambda>e. url e = u) (getExtractedUrls (addExtractedUrl u t1 st))
                 = [\<lparr>url = u, firstExtracted = t1, lastExtracted = t1, count = 1\<rparr>]
               \<and> filter (\<lambda>e. url e = u)
                    (getExtractedUrls (addExtractedUrl u t2 (addExtractedUrl u t1 st)))
                 = [\<lparr>url = u, firstExtracted = t1, lastExtracted = t2, count = 2\<rparr>]
               \<and> length (getExtractedUrls (addExtractedUrl u t2 (addExtractedUrl u t1 st)))
                 = length (getExtractedUrls (addExtractedUrl u t1 st)))"
proof -
  let ?recent = "filter (\<lambda>e. t1 \<le> lastExtracted e) (getExtractedUrls st)"
  note first = first_record_exact [OF absent, of t1]
  have present_iff: "hasUrl u xs \<longleftrightarrow> filter (\<lambda>e. url e = u) xs \<noteq> []" for xs
    by (auto simp: hasUrl_iff filter_empty_conv)
  have a: "hasUrl u (getExtractedUrls (addExtractedUrl u t1 st)) \<longleftrightarrow> length ?recent < 100"
    unfolding present_iff first by (simp add: maxUrls_def)
  have le: "length ?recent \<le> length (getExtractedUrls st)"
    by (rule length_filter_le)
  have a1: "hasUrl u (getExtractedUrls (addExtractedUrl u t1 st))"
    if "length (getExtractedUrls st) < 100"
    using that le a by linarith
  have older: "length ?recent < length (getExtractedUrls st)
                 \<longleftrightarrow> (\<exists>e \<in> set (getExtractedUrls st). lastExtracted e < t1)"
  proof
    assume "length ?recent < length (getExtractedUrls st)"
    then have "?recent \<noteq> getExtractedUrls st" by auto
    then show "\<exists>e \<in> set (getExtractedUrls st). lastExtracted e < t1"
      by (auto simp: filter_id_conv not_le)
  next
    assume "\<exists>e \<in> set (getExtractedUrls st). lastExtracted e < t1"
    then obtain e where "e \<in> set (getExtractedUrls st)" "\<not> t1 \<le> lastExtracted e" by auto
    then show "length ?recent < length (getExtractedUrls st)"
      by (rule length_filter_less)
  qed
  have a2: "hasUrl u (getExtractedUrls (addExtractedUrl u t1 st))
              \<longleftrightarrow> (\<exists>e \<in> set (getExtractedUrls st). lastExtracted e < t1)"
    if "length (getExtractedUrls st) = 100"
    using that a older by simp
  have b: "filter (\<lambda>e. url e = u) (getExtractedUrls (addExtractedUrl u t1 st))
                 = [\<lparr>url = u, firstExtracted = t1, lastExtracted = t1, count = 1\<rparr>]
               \<and> filter (\<lambda>e. url e = u)
                    (getExtractedUrls (addExtractedUrl u t2 (addExtractedUrl u t1 st)))
                 = [\<lparr>url = u, firstExtracted = t1, lastExtracted = t2, count = 2\<rparr>]
               \<and> length (getExtractedUrls (addExtractedUrl u t2 (addExtractedUrl u t1 st)))
                 = length (getExtractedUrls (addExtractedUrl u t1 st))"
    if room: "length ?recent < 100"
  proof -
    have one: "filter (\<lambda>e. url e = u) (getExtractedUrls (addExtractedUrl u t1 st)) = [newEntry u t1]"
      using first room by (simp add: maxUrls_def)
    from second_record_bumps [OF one length_addExtractedUrl, of t2] one
    show ?thesis by (simp add: newEntry_def bumpEntry_def)
  qed
  from a a1 a2 b show ?thesis by blast
qed

theorem upsert_by_url_witness:
  "\<not> hasUrl ''b'' (getExtractedUrls fullHistory)
   \<and> length (getExtractedUrls fullHistory) = 100
   \<and> length (filter (\<lambda>e. 1050 \<le> lastExtracted e) (getExtractedUrls fullHistory)) < 100
   \<and> hasUrl ''b'' (getExtractedUrls (addExtractedUrl ''b'' 1050 fullHistory))
   \<and> filter (\<lambda>e. url e = ''b'')
        (getExtractedUrls (addExtractedUrl ''b'' 1060 (addExtractedUrl ''b'' 1050 fullHistory)))
       = [\<lparr>url = ''b'', firstExtracted = 1050, lastExtracted = 1060, count = 2\<rparr>]
   \<and> \<not> hasUrl ''b'' (getExtractedUrls (addExtractedUrl ''b'' 1000 fullHistory))"
proof -
  have a: "\<not> hasUrl ''b'' (getExtractedUrls fullHistory)"
    by (rule fullHistory_facts(3))
  have full: "length (getExtractedUrls fullHistory) = 100"
    using fullHistory_facts(1) by (simp add: maxUrls_def)
  have b: "length (filter (\<lambda>e. 1050 \<le> lastExtracted e) (getExtractedUrls fullHistory)) < 100"
    by code_simp
  have c: "\<not> (\<exists>e \<in> set (getExtractedUrls fullHistory). lastExtracted e < 1000)"
    using fullHistory_facts(2) by fastforce
  from upsert_by_url [OF a, of 1050 1060] upsert_by_url [OF a, of 1000 1060] a full b c
  show ?thesis by blast
qed

text \<open>
  Claim C10. When the URL already has an entry and the history holds at most 100 entries,
  the call changes only the first entry with that URL, and there only \<^verbatim>\<open>lastExtracted\<close>
  (to the clock reading) and \<^verbatim>\<open>count\<close> (incremented); its \<^verbatim>\<open>url\<close> and
  \<^verbatim>\<open>firstExtracted\<close>, the length of the list, and every other entry stay as they were.
\<close>

theorem record_existing_frame:
  assumes "hasUrl u (getExtractedUrls st)"
    and "length (getExtractedUrls st) \<le> 100"
  shows "length (getExtractedUrls (addExtractedUrl u t st)) = length (getExtractedUrls st)
         \<and> (\<forall>j < length (getExtractedUrls st).
               if findIndex (\<lambda>item. url item = u) (getExtractedUrls st) = Some j
               then url (getExtractedUrls (addExtractedUrl u t st) ! j) = url (getExtractedUrls st ! j)
                  \<and> firstExtracted (getExtractedUrls (addExtractedUrl u t st) ! j)
                      = firstExtracted (getExtractedUrls st ! j)
                  \<and> lastExtracted (getExtractedUrls (addExtractedUrl u t st) ! j) = t
                  \<and> count (getExtractedUrls (addExtractedUrl u t st) ! j)
                      = (if count (getExtractedUrls st ! j) = 0 then 1 else count (getExtractedUrls st ! j)) + 1
               else getExtractedUrls (addExtractedUrl u t st) ! j = getExtractedUrls st ! j)"
proof -
  from assms(1) obtain i where i: "findIndex (\<lambda>item. url item = u) (getExtractedUrls st) = Some i"
    by (auto simp: hasUrl_def)
  from findIndex_Some [OF i] have "i < length (getExtractedUrls st)" by simp
  with addExtractedUrl_present [OF i, of t] assms(2) i
  show ?thesis by (auto simp: maxUrls_def bumpEntry_def)
qed

theorem record_existing_frame_witness:
  "hasUrl ''https://a.test/'' (getExtractedUrls smallHistory)
   \<and> length (getExtractedUrls smallHistory) \<le> 100
   \<and> length (getExtractedUrls (addExtractedUrl ''https://a.test/'' 30 smallHistory))
       = length (getExtractedUrls smallHistory)
   \<and> getExtractedUrls (addExtractedUrl ''https://a.test/'' 30 smallHistory)
       = [\<lparr>url = ''https://a.test/'', firstExtracted = 10, lastExtracted = 30, count = 4\<rparr>,
          \<lparr>url = ''https://b.test/'', firstExtracted = 11, lastExtracted = 11, count = 1\<rparr>]"
proof -
  have a: "hasUrl ''https://a.test/'' (getExtractedUrls smallHistory)"
    by (simp add: smallHistory_def hasUrl_def)
  have b: "length (getExtractedUrls smallHistory) \<le> 100"
    by (simp add: smallHistory_def)
  have c: "length (getExtractedUrls (addExtractedUrl ''https://a.test/'' 30 smallHistory))
       = length (getExtractedUrls smallHistory)"
    using record_existing_frame [OF a b, of 30] by (rule conjunct1)
  have d: "getExtractedUrls (addExtractedUrl ''https://a.test/'' 30 smallHistory)
       = [\<lparr>url = ''https://a.test/'', firstExtracted = 10, lastExtracted = 30, count = 4\<rparr>,
          \<lparr>url = ''https://b.test/'', firstExtracted = 11, lastExtracted = 11, count = 1\<rparr>]"
    by (simp add: smallHistory_def addExtractedUrl_def Let_def maxUrls_def bumpEntry_def)
  from a b c d show ?thesis by blast
qed

section \<open>Facts about classification, filenames and front matter\<close>

lemma str_includes_sublist: "str_includes s k \<longleftrightarrow> sublist k s"
proof (induction s)
  case Nil
  then show ?case by simp
next
  case (Cons c cs)
  then show ?case by (cases k) (simp_all add: sublist_Cons_right)
qed

lemma scanKeywords_iff:
  "scanKeywords tlow ulow kws \<longleftrightarrow> (\<exists>k \<in> set kws. sublist k tlow \<or> sublist k ulow)"
  by (induction kws) (auto simp: str_includes_sublist)

lemma scanPatterns_find:
  "scanPatterns tlow ulow ps =
     (case find (\<lambda>(category, keywords). \<exists>keyword \<in> set keywords. sublist keyword tlow \<or> sublist keyword ulow) ps of
        Some (category, keywords) \<Rightarrow> category
      | None \<Rightarrow> ''general'')"
  by (induction ps) (auto simp: scanKeywords_iff)


text \<open>
  Claim C6. \<^verbatim>\<open>detectCategory\<close> is a function of the lower-cased title and URL: the first
  category, in the declared order architecture, testing, security, performance, database,
  devops, frontend, backend, mobile, ai_ml, programming, one of whose keywords is a substring
  of either string, and \<^verbatim>\<open>general\<close> when there is none. For the title
  "Building Microservice Architecture with Docker" and the URL "https://x.test/a" the result
  is architecture.
\<close>

theorem detectCategory_first_match:
  "detectCategory t u = classify_spec (toLowerCase t) (toLowerCase u)
   \<and> map fst patterns = [''architecture'', ''testing'', ''security'', ''performance'', ''database'',
        ''devops'', ''frontend'', ''backend'', ''mobile'', ''ai_ml'', ''programming'']
   \<and> detectCategory ''Building Microservice Architecture with Docker'' ''https://x.test/a''
        = ''architecture''"
proof -
  have a: "detectCategory t u = classify_spec (toLowerCase t) (toLowerCase u)"
    by (simp only: detectCategory_def classify_spec_def scanPatterns_find)
  have b: "map fst patterns = [''architecture'', ''testing'', ''security'', ''performance'', ''database'',
        ''devops'', ''frontend'', ''backend'', ''mobile'', ''ai_ml'', ''programming'']"
    by (simp add: patterns_def)
  have c: "detectCategory ''Building Microservice Architecture with Docker'' ''https://x.test/a''
        = ''architecture''"
    by code_simp
  from a b c show ?thesis by blast
qed

theorem detectCategory_first_match_witness:
  "detectCategory ''Docker in production'' ''https://x.test/a''
     = classify_spec (toLowerCase ''Docker in production'') (toLowerCase ''https://x.test/a'')
   \<and> detectCategory ''Docker in production'' ''https://x.test/a'' = ''testing''
   \<and> detectCategory ''Docker in production'' ''https://example.com/a'' = ''devops''
   \<and> detectCategory ''Weekly notes'' ''https://example.com/a'' = ''general''"
proof -
  have a: "detectCategory ''Docker in production'' ''https://x.test/a''
     = classify_spec (toLowerCase ''Docker in production'') (toLowerCase ''https://x.test/a'')"
    using detectCategory_first_match [of "''Docker in production''" "''https://x.test/a''"]
    by (rule conjunct1)
  have b: "detectCategory ''Docker in production'' ''https://x.test/a'' = ''testing''"
    by code_simp
  have c: "detectCategory ''Docker in production'' ''https://example.com/a'' = ''devops''"
    by code_simp
  have d: "detectCategory ''Weekly notes'' ''https://example.com/a'' = ''general''"
    by code_simp
  from a b c d show ?thesis by blast
qed

lemma digitsOf_1: "n < 10 \<Longrightarrow> digitsOf n = [''0123456789'' ! n]"
  by (simp add: digitsOf.simps)

lemma digitsOf_2:
  "10 \<le> n \<Longrightarrow> n < 100 \<Longrightarrow> digitsOf n = [''0123456789'' ! (n div 10), ''0123456789'' ! (n mod 10)]"
  by (subst digitsOf.simps) (simp add: digitsOf_1)

lemma digitsOf_3:
  "100 \<le> n \<Longrightarrow> n < 1000 \<Longrightarrow>
   digitsOf n = [''0123456789'' ! (n div 100), ''0123456789'' ! (n div 10 mod 10), ''0123456789'' ! (n mod 10)]"
  by (subst digitsOf.simps) (simp add: digitsOf_2 div_mult2_eq [symmetric])

lemma digitsOf_4:
  "1000 \<le> n \<Longrightarrow> n < 10000 \<Longrightarrow>
   digitsOf n = [''0123456789'' ! (n div 1000), ''0123456789'' ! (n div 100 mod 10),
                 ''0123456789'' ! (n div 10 mod 10), ''0123456789'' ! (n mod 10)]"
  by (subst digitsOf.simps) (simp add: digitsOf_3 div_mult2_eq [symmetric])

lemma digitsOf_nonempty: "digitsOf n \<noteq> []"
  by (subst digitsOf.simps) simp

lemma formatDate_nonempty: "formatDate d \<noteq> []"
  by (simp add: formatDate_def)

lemma pad2: "padStart 2 CHR ''0'' (digitsOf n) =
   (if n < 10 then [CHR ''0'', ''0123456789'' ! n] else digitsOf n)"
proof (cases "n < 10")
  case True
  then show ?thesis by (simp add: padStart_def digitsOf_1)
next
  case False
  then have "2 \<le> length (digitsOf n)"
    by (subst digitsOf.simps) (use digitsOf_nonempty [of "n div 10"] in \<open>auto simp: Suc_le_eq\<close>)
  with False show ?thesis by (simp add: padStart_def)
qed

lemma formatDate_shape:
  assumes "1000 \<le> getFullYear d" "getFullYear d \<le> 9999" "getMonth d < 12" "getDate d \<le> 31"
  shows "length (formatDate d) = 10 \<and> formatDate d ! 4 = CHR ''-'' \<and> formatDate d ! 7 = CHR ''-''"
proof -
  have y: "length (String_of_int (getFullYear d)) = 4"
    using assms(1,2) digitsOf_4 [of "nat (getFullYear d)"] by (simp add: String_of_int_def)
  have m: "length (padStart 2 CHR ''0'' (digitsOf (getMonth d + 1))) = 2"
    using assms(3) digitsOf_2 [of "getMonth d + 1"] by (simp add: pad2)
  have dd: "length (padStart 2 CHR ''0'' (digitsOf (getDate d))) = 2"
    using assms(4) digitsOf_2 [of "getDate d"] by (simp add: pad2)
  show ?thesis
    using y m dd by (simp add: formatDate_def nth_append)
qed

lemma generateFilename_eq:
  "generateFilename parse today pc u =
     formatDate (filenameDate_spec parse today pc) @ ''_'' @ detectCategory (title pc) u @ ''_''
       @ (if title pc = [] then ''document'' else safeTitle (title pc)) @ ''.md''"
  by (simp add: generateFilename_def filenameDate_spec_def Let_def safeTitle_def toLowerCase_def
        formatDate_nonempty split: option.splits)

lemma safeChars_lowered:
  "list_all (\<lambda>c. toLowerChar c \<in> set ''abcdefghijklmnopqrstuvwxyz0123456789_.-'')
     ''abcdefghijklmnopqrstuvwxyzABCDEFGHIJKLMNOPQRSTUVWXYZ0123456789_.-''"
  by code_simp

lemma toLowerChar_safe:
  "safeChar c \<Longrightarrow> toLowerChar c \<in> set ''abcdefghijklmnopqrstuvwxyz0123456789_.-''"
  using safeChars_lowered unfolding safeChar_def list_all_iff by blast

lemma safeTitle_map:
  "safeTitle t = map (\<lambda>c. if safeChar c then toLowerChar c else CHR ''_'') t"
proof -
  have "toLowerChar CHR ''_'' = CHR ''_''" by code_simp
  then show ?thesis by (simp add: safeTitle_def toLowerCase_def)
qed

lemma safeTitle_chars:
  "\<forall>c \<in> set (safeTitle t). c \<in> set ''abcdefghijklmnopqrstuvwxyz0123456789_.-''"
proof
  fix c assume "c \<in> set (safeTitle t)"
  then have "c \<in> (\<lambda>x. if safeChar x then toLowerChar x else CHR ''_'') ` set t"
    by (simp add: safeTitle_map)
  then obtain x where "c = (if safeChar x then toLowerChar x else CHR ''_'')"
    by blast
  then show "c \<in> set ''abcdefghijklmnopqrstuvwxyz0123456789_.-''"
    using toLowerChar_safe [of x] by (cases "safeChar x") simp_all
qed

lemma digitsOf_step: "10 \<le> n \<Longrightarrow> digitsOf n = digitsOf (n div 10) @ [''0123456789'' ! (n mod 10)]"
  by (subst digitsOf.simps) simp

lemma pad2_digits:
  assumes "n < 100"
  shows "padStart 2 CHR ''0'' (digitsOf n) = [''0123456789'' ! (n div 10), ''0123456789'' ! (n mod 10)]"
proof (cases "n < 10")
  case True
  then show ?thesis by (simp add: padStart_def digitsOf_1)
next
  case False
  with assms show ?thesis by (simp add: padStart_def digitsOf_2)
qed

lemma formatDate_explicit:
  assumes "getMonth d < 12" "getDate d \<le> 31"
  shows "formatDate d =
           (if getFullYear d < 0 then ''-'' @ digitsOf (nat (- getFullYear d))
            else digitsOf (nat (getFullYear d)))
           @ [CHR ''-'', ''0123456789'' ! ((getMonth d + 1) div 10),
              ''0123456789'' ! ((getMonth d + 1) mod 10),
              CHR ''-'', ''0123456789'' ! (getDate d div 10), ''0123456789'' ! (getDate d mod 10)]"
  using assms pad2_digits [of "getMonth d + 1"] pad2_digits [of "getDate d"]
  by (simp add: formatDate_def String_of_int_def)

lemma formatDate_four_digit_year:
  assumes "1000 \<le> getFullYear d" "getFullYear d \<le> 9999" "getMonth d < 12" "getDate d \<le> 31"
  shows "formatDate d =
           [''0123456789'' ! (nat (getFullYear d) div 1000),
            ''0123456789'' ! (nat (getFullYear d) div 100 mod 10),
            ''0123456789'' ! (nat (getFullYear d) div 10 mod 10),
            ''0123456789'' ! (nat (getFullYear d) mod 10),
            CHR ''-'', ''0123456789'' ! ((getMonth d + 1) div 10),
            ''0123456789'' ! ((getMonth d + 1) mod 10),
            CHR ''-'', ''0123456789'' ! (getDate d div 10), ''0123456789'' ! (getDate d mod 10)]"
  using assms formatDate_explicit [of d] digitsOf_4 [of "nat (getFullYear d)"]
  by simp

lemma safeTitle_explicit:
  "safeTitle t =
     map (\<lambda>c. if c \<in> set ''abcdefghijklmnopqrstuvwxyzABCDEFGHIJKLMNOPQRSTUVWXYZ0123456789_.-''
               then toLowerChar c else CHR ''_'') t"
  by (simp only: safeTitle_map safeChar_def)

text \<open>
  Claim C7 as stated fails for a publication date whose year has fewer than four digits: the
  date part is \<^verbatim>\<open>String(getFullYear())\<close> without padding, so a page published on July 4th of
  the year 99 gets a filename starting with \<^verbatim>\<open>99-07-04\<close>, which is not of the form YYYY-MM-DD.
\<close>

theorem generateFilename_counterexample:
  "publicationDate ancientPage = Some ''0099-07-04''
   \<and> parseAncient ''0099-07-04'' = Some july4of99
   \<and> getFullYear july4of99 = 99
   \<and> generateFilename parseAncient jan10 ancientPage ''https://example.com/a''
       = ''99-07-04_general_notes.md''"
proof -
  have "generateFilename parseAncient jan10 ancientPage ''https://example.com/a''
          = ''99-07-04_general_notes.md''"
    by code_simp
  then show ?thesis
    by (simp add: ancientPage_def parseAncient_def july4of99_def)
qed

text \<open>
  Claim C7, amended. The filename is the date, the category and the safe title joined by
  underscores, followed by \<^verbatim>\<open>.md\<close>. The date is the publication date when it is present,
  non-empty and parseable, and the current date otherwise. It is written as the year in decimal
  without padding (with a minus sign when negative), a dash, the month number in two digits, a
  dash and the day in two digits; the decimal notation of a number below ten is its digit, and
  that of a larger number is the notation of its tenth followed by its last digit. For a year
  from 1000 to 9999 these are the ten characters YYYY-MM-DD. The safe title is the title with
  every character other than a letter \<^verbatim>\<open>a\<close> to \<^verbatim>\<open>z\<close> or \<^verbatim>\<open>A\<close> to \<^verbatim>\<open>Z\<close>, a digit, underscore, dot
  or dash replaced by an underscore and the upper-case letters replaced by their lower-case
  forms, or \<^verbatim>\<open>document\<close> when the title is empty. For the title \<^verbatim>\<open>C++ Tips: Part #1!\<close> with no
  publication date, on 2026-01-10, classified as programming, the filename is
  \<^verbatim>\<open>2026-01-10_programming_c___tips__part__1_.md\<close>.
\<close>

theorem generateFilename_form:
  "generateFilename parse today pc u =
     formatDate (case publicationDate pc of
                   None \<Rightarrow> today
                 | Some p \<Rightarrow> if p = [] then today
                            else (case parse p of None \<Rightarrow> today | Some published \<Rightarrow> published))
     @ ''_'' @ detectCategory (title pc) u @ ''_''
     @ (if title pc = [] then ''document''
        else map (\<lambda>c. if c \<in> set ''abcdefghijklmnopqrstuvwxyzABCDEFGHIJKLMNOPQRSTUVWXYZ0123456789_.-''
                       then toLowerChar c else CHR ''_'') (title pc))
     @ ''.md''
   \<and> map toLowerChar ''ABCDEFGHIJKLMNOPQRSTUVWXYZ'' = ''abcdefghijklmnopqrstuvwxyz''
   \<and> map toLowerChar ''abcdefghijklmnopqrstuvwxyz0123456789_.-''
       = ''abcdefghijklmnopqrstuvwxyz0123456789_.-''
   \<and> (getMonth d < 12 \<and> getDate d \<le> 31 \<longrightarrow>
        formatDate d =
          (if getFullYear d < 0 then ''-'' @ digitsOf (nat (- getFullYear d))
           else digitsOf (nat (getFullYear d)))
          @ [CHR ''-'', ''0123456789'' ! ((getMonth d + 1) div 10),
             ''0123456789'' ! ((getMonth d + 1) mod 10),
             CHR ''-'', ''0123456789'' ! (getDate d div 10), ''0123456789'' ! (getDate d mod 10)])
   \<and> (n < 10 \<longrightarrow> digitsOf n = [''0123456789'' ! n])
   \<and> (10 \<le> n \<longrightarrow> digitsOf n = digitsOf (n div 10) @ [''0123456789'' ! (n mod 10)])
   \<and> (1000 \<le> getFullYear d \<and> getFullYear d \<le> 9999 \<and> getMonth d < 12 \<and> getDate d \<le> 31 \<longrightarrow>
        formatDate d =
          [''0123456789'' ! (nat (getFullYear d) div 1000),
           ''0123456789'' ! (nat (getFullYear d) div 100 mod 10),
           ''0123456789'' ! (nat (getFullYear d) div 10 mod 10),
           ''0123456789'' ! (nat (getFullYear d) mod 10),
           CHR ''-'', ''0123456789'' ! ((getMonth d + 1) div 10),
           ''0123456789'' ! ((getMonth d + 1) mod 10),
           CHR ''-'', ''0123456789'' ! (getDate d div 10), ''0123456789'' ! (getDate d mod 10)])
   \<and> (title pc = ''C++ Tips: Part #1!'' \<and> publicationDate pc = None
        \<and> getFullYear today = 2026 \<and> getMonth today = 0 \<and> getDate today = 10
        \<and> detectCategory (title pc) u = ''programming'' \<longrightarrow>
        generateFilename parse today pc u = ''2026-01-10_programming_c___tips__part__1_.md'')"
proof -
  have a: "generateFilename parse today pc u =
     formatDate (case publicationDate pc of
                   None \<Rightarrow> today
                 | Some p \<Rightarrow> if p = [] then today
                            else (case parse p of None \<Rightarrow> today | Some published \<Rightarrow> published))
     @ ''_'' @ detectCategory (title pc) u @ ''_''
     @ (if title pc = [] then ''document''
        else map (\<lambda>c. if c \<in> set ''abcdefghijklmnopqrstuvwxyzABCDEFGHIJKLMNOPQRSTUVWXYZ0123456789_.-''
                       then toLowerChar c else CHR ''_'') (title pc))
     @ ''.md''"
    by (simp only: generateFilename_eq filenameDate_spec_def safeTitle_explicit)
  have b: "map toLowerChar ''ABCDEFGHIJKLMNOPQRSTUVWXYZ'' = ''abcdefghijklmnopqrstuvwxyz''"
    by code_simp
  have c: "map toLowerChar ''abcdefghijklmnopqrstuvwxyz0123456789_.-''
       = ''abcdefghijklmnopqrstuvwxyz0123456789_.-''"
    by code_simp
  have e: "generateFilename parse today pc u = ''2026-01-10_programming_c___tips__part__1_.md''"
    if t: "title pc = ''C++ Tips: Part #1!''" and p: "publicationDate pc = None"
      and y: "getFullYear today = 2026" and m: "getMonth today = 0" and dd: "getDate today = 10"
      and cat: "detectCategory (title pc) u = ''programming''"
  proof -
    have s: "safeTitle ''C++ Tips: Part #1!'' = ''c___tips__part__1_''" by code_simp
    have f: "formatDate today = ''2026-01-10''"
      using formatDate_four_digit_year [of today] by (simp add: y m dd)
    have "filenameDate_spec parse today pc = today"
      by (simp add: filenameDate_spec_def p)
    then show ?thesis
      using generateFilename_eq [of parse today pc u] by (simp add: t s f cat [unfolded t])
  qed
  have f: "getMonth d < 12 \<and> getDate d \<le> 31 \<longrightarrow>
        formatDate d =
          (if getFullYear d < 0 then ''-'' @ digitsOf (nat (- getFullYear d))
           else digitsOf (nat (getFullYear d)))
          @ [CHR ''-'', ''0123456789'' ! ((getMonth d + 1) div 10),
             ''0123456789'' ! ((getMonth d + 1) mod 10),
             CHR ''-'', ''0123456789'' ! (getDate d div 10), ''0123456789'' ! (getDate d mod 10)]"
    using formatDate_explicit [of d] by blast
  have g1: "n < 10 \<longrightarrow> digitsOf n = [''0123456789'' ! n]"
    using digitsOf_1 [of n] by blast
  have g2: "10 \<le> n \<longrightarrow> digitsOf n = digitsOf (n div 10) @ [''0123456789'' ! (n mod 10)]"
    using digitsOf_step [of n] by blast
  have h: "1000 \<le> getFullYear d \<and> getFullYear d \<le> 9999 \<and> getMonth d < 12 \<and> getDate d \<le> 31 \<longrightarrow>
        formatDate d =
          [''0123456789'' ! (nat (getFullYear d) div 1000),
           ''0123456789'' ! (nat (getFullYear d) div 100 mod 10),
           ''0123456789'' ! (nat (getFullYear d) div 10 mod 10),
           ''0123456789'' ! (nat (getFullYear d) mod 10),
           CHR ''-'', ''0123456789'' ! ((getMonth d + 1) div 10),
           ''0123456789'' ! ((getMonth d + 1) mod 10),
           CHR ''-'', ''0123456789'' ! (getDate d div 10), ''0123456789'' ! (getDate d mod 10)]"
    using formatDate_four_digit_year [of d] by blast
  have e': "title pc = ''C++ Tips: Part #1!'' \<and> publicationDate pc = None
        \<and> getFullYear today = 2026 \<and> getMonth today = 0 \<and> getDate today = 10
        \<and> detectCategory (title pc) u = ''programming'' \<longrightarrow>
        generateFilename parse today pc u = ''2026-01-10_programming_c___tips__part__1_.md''"
    using e by blast
  show ?thesis
    by (intro conjI a b c f g1 g2 h e')
qed

theorem generateFilename_form_witness:
  "title tipsPage = ''C++ Tips: Part #1!'' \<and> publicationDate tipsPage = None
   \<and> getFullYear jan10 = 2026 \<and> getMonth jan10 = 0 \<and> getDate jan10 = 10
   \<and> detectCategory (title tipsPage) ''https://example.com/programming/tips'' = ''programming''
   \<and> generateFilename (\<lambda>s. None) jan10 tipsPage ''https://example.com/programming/tips''
       = ''2026-01-10_programming_c___tips__part__1_.md''
   \<and> formatDate jan10 = ''2026-01-10''
   \<and> formatDate july4of99 = ''99-07-04''
   \<and> digitsOf 7 = ''7''"
proof -
  note c2 = conjunct2
  note h = generateFilename_form
    [of "\<lambda>s. None" jan10 tipsPage "''https://example.com/programming/tips''" jan10 7]
  note h99 = generateFilename_form
    [of "\<lambda>s. None" jan10 tipsPage "''https://example.com/programming/tips''" july4of99 7]
  have hyp: "title tipsPage = ''C++ Tips: Part #1!'' \<and> publicationDate tipsPage = None
   \<and> getFullYear jan10 = 2026 \<and> getMonth jan10 = 0 \<and> getDate jan10 = 10"
    by (simp add: tipsPage_def jan10_def)
  have cat: "detectCategory (title tipsPage) ''https://example.com/programming/tips'' = ''programming''"
    unfolding tipsPage_def by code_simp
  have prem: "title tipsPage = ''C++ Tips: Part #1!'' \<and> publicationDate tipsPage = None
   \<and> getFullYear jan10 = 2026 \<and> getMonth jan10 = 0 \<and> getDate jan10 = 10
   \<and> detectCategory (title tipsPage) ''https://example.com/programming/tips'' = ''programming''"
    using hyp cat by blast
  have rng: "1000 \<le> getFullYear jan10 \<and> getFullYear jan10 \<le> 9999
             \<and> getMonth jan10 < 12 \<and> getDate jan10 \<le> 31"
    by (simp add: jan10_def)
  have rng99: "getMonth july4of99 < 12 \<and> getDate july4of99 \<le> 31"
    by (simp add: july4of99_def)
  have seven: "(7::nat) < 10"
    by simp
  have fname: "generateFilename (\<lambda>s. None) jan10 tipsPage ''https://example.com/programming/tips''
       = ''2026-01-10_programming_c___tips__part__1_.md''"
    by (rule mp [OF h [THEN c2, THEN c2, THEN c2, THEN c2, THEN c2, THEN c2, THEN c2] prem])
  have f1: "formatDate jan10 = ''2026-01-10''"
    using mp [OF h [THEN c2, THEN c2, THEN c2, THEN c2, THEN c2, THEN c2, THEN conjunct1] rng]
    by (simp add: jan10_def)
  have d7: "digitsOf 7 = ''7''"
    using mp [OF h [THEN c2, THEN c2, THEN c2, THEN c2, THEN conjunct1] seven] by simp
  have d99: "digitsOf 99 = ''99''"
    using digitsOf_2 [of 99] by simp
  have f2: "formatDate july4of99 = ''99-07-04''"
    using mp [OF h99 [THEN c2, THEN c2, THEN c2, THEN conjunct1] rng99]
    by (simp add: july4of99_def d99)
  show ?thesis
    by (intro conjI prem [THEN conjunct1] prem [THEN c2, THEN conjunct1]
          prem [THEN c2, THEN c2, THEN conjunct1] prem [THEN c2, THEN c2, THEN c2, THEN conjunct1]
          prem [THEN c2, THEN c2, THEN c2, THEN c2, THEN conjunct1] cat fname f1 f2 d7)
qed


section \<open>Facts about the retry loop and the background pipeline\<close>

lemma backoffLoop_503_last:
  assumes "statusOf (fetch pf 7) = Some 503"
  shows "backoffLoop pf 7 = (Inr (responseOf (fetch pf 7)), [Fetch 7])"
  using assms
  by (subst backoffLoop.simps)
     (simp add: maxRetries_def statusOf_def responseOf_def ok_def split: fetchOutcome.splits)

lemma backoffLoop_503_retry:
  assumes "statusOf (fetch pf k) = Some 503" "k < 7"
  shows "backoffLoop pf k =
           (fst (backoffLoop pf (Suc k)),
            Fetch k # Sleep ((2 * 2 ^ k + random pf k) * 1000) # snd (backoffLoop pf (Suc k)))"
proof -
  from assms(1) obtain r where r: "fetch pf k = Response r" "status r = 503"
    by (auto simp: statusOf_def split: fetchOutcome.splits)
  show ?thesis
    using assms(2)
    by (subst backoffLoop.simps)
       (simp add: r maxRetries_def baseDelay_def ok_def split: prod.splits)
qed

lemma backoff_all_503:
  assumes all: "\<forall>k < 8. statusOf (fetch pf k) = Some 503"
  shows "generateContentWithBackoff pf =
           (Inr (responseOf (fetch pf 7)),
            [Fetch 0, Sleep ((2 * 2 ^ 0 + random pf 0) * 1000),
             Fetch 1, Sleep ((2 * 2 ^ 1 + random pf 1) * 1000),
             Fetch 2, Sleep ((2 * 2 ^ 2 + random pf 2) * 1000),
             Fetch 3, Sleep ((2 * 2 ^ 3 + random pf 3) * 1000),
             Fetch 4, Sleep ((2 * 2 ^ 4 + random pf 4) * 1000),
             Fetch 5, Sleep ((2 * 2 ^ 5 + random pf 5) * 1000),
             Fetch 6, Sleep ((2 * 2 ^ 6 + random pf 6) * 1000),
             Fetch 7])"
proof -
  have s: "statusOf (fetch pf 0) = Some 503" "statusOf (fetch pf 1) = Some 503"
    "statusOf (fetch pf 2) = Some 503" "statusOf (fetch pf 3) = Some 503"
    "statusOf (fetch pf 4) = Some 503" "statusOf (fetch pf 5) = Some 503"
    "statusOf (fetch pf 6) = Some 503" "statusOf (fetch pf 7) = Some 503"
    using all by simp_all
  have l7: "backoffLoop pf 7 = (Inr (responseOf (fetch pf 7)), [Fetch 7])"
    by (rule backoffLoop_503_last [OF s(8)])
  have l6: "backoffLoop pf 6 = (Inr (responseOf (fetch pf 7)),
      [Fetch 6, Sleep ((2 * 2 ^ 6 + random pf 6) * 1000), Fetch 7])"
    using backoffLoop_503_retry [OF s(7)] l7 by (simp add: eval_nat_numeral)
  have l5: "backoffLoop pf 5 = (Inr (responseOf (fetch pf 7)),
      [Fetch 5, Sleep ((2 * 2 ^ 5 + random pf 5) * 1000),
       Fetch 6, Sleep ((2 * 2 ^ 6 + random pf 6) * 1000), Fetch 7])"
    using backoffLoop_503_retry [OF s(6)] l6 by (simp add: eval_nat_numeral)
  have l4: "backoffLoop pf 4 = (Inr (responseOf (fetch pf 7)),
      [Fetch 4, Sleep ((2 * 2 ^ 4 + random pf 4) * 1000),
       Fetch 5, Sleep ((2 * 2 ^ 5 + random pf 5) * 1000),
       Fetch 6, Sleep ((2 * 2 ^ 6 + random pf 6) * 1000), Fetch 7])"
    using backoffLoop_503_retry [OF s(5)] l5 by (simp add: eval_nat_numeral)
  have l3: "backoffLoop pf 3 = (Inr (responseOf (fetch pf 7)),
      [Fetch 3, Sleep ((2 * 2 ^ 3 + random pf 3) * 1000),
       Fetch 4, Sleep ((2 * 2 ^ 4 + random pf 4) * 1000),
       Fetch 5, Sleep ((2 * 2 ^ 5 + random pf 5) * 1000),
       Fetch 6, Sleep ((2 * 2 ^ 6 + random pf 6) * 1000), Fetch 7])"
    using backoffLoop_503_retry [OF s(4)] l4 by (simp add: eval_nat_numeral)
  have l2: "backoffLoop pf 2 = (Inr (responseOf (fetch pf 7)),
      [Fetch 2, Sleep ((2 * 2 ^ 2 + random pf 2) * 1000),
       Fetch 3, Sleep ((2 * 2 ^ 3 + random pf 3) * 1000),
       Fetch 4, Sleep ((2 * 2 ^ 4 + random pf 4) * 1000),
       Fetch 5, Sleep ((2 * 2 ^ 5 + random pf 5) * 1000),
       Fetch 6, Sleep ((2 * 2 ^ 6 + random pf 6) * 1000), Fetch 7])"
    using backoffLoop_503_retry [OF s(3)] l3 by (simp add: eval_nat_numeral)
  have l1: "backoffLoop pf 1 = (Inr (responseOf (fetch pf 7)),
      [Fetch 1, Sleep ((2 * 2 ^ 1 + random pf 1) * 1000),
       Fetch 2, Sleep ((2 * 2 ^ 2 + random pf 2) * 1000),
       Fetch 3, Sleep ((2 * 2 ^ 3 + random pf 3) * 1000),
       Fetch 4, Sleep ((2 * 2 ^ 4 + random pf 4) * 1000),
       Fetch 5, Sleep ((2 * 2 ^ 5 + random pf 5) * 1000),
       Fetch 6, Sleep ((2 * 2 ^ 6 + random pf 6) * 1000), Fetch 7])"
    using backoffLoop_503_retry [OF s(2)] l2 by (simp add: eval_nat_numeral)
  have l0: "backoffLoop pf 0 = (Inr (responseOf (fetch pf 7)),
      [Fetch 0, Sleep ((2 * 2 ^ 0 + random pf 0) * 1000),
       Fetch 1, Sleep ((2 * 2 ^ 1 + random pf 1) * 1000),
       Fetch 2, Sleep ((2 * 2 ^ 2 + random pf 2) * 1000),
       Fetch 3, Sleep ((2 * 2 ^ 3 + random pf 3) * 1000),
       Fetch 4, Sleep ((2 * 2 ^ 4 + random pf 4) * 1000),
       Fetch 5, Sleep ((2 * 2 ^ 5 + random pf 5) * 1000),
       Fetch 6, Sleep ((2 * 2 ^ 6 + random pf 6) * 1000), Fetch 7])"
    using backoffLoop_503_retry [OF s(1)] l1 by (simp add: eval_nat_numeral)
  then show ?thesis by (simp add: generateContentWithBackoff_def)
qed

lemma backoff_fetches:
  assumes "\<forall>k < 8. statusOf (fetch pf k) = Some 503"
  shows "filter isFetch (snd (generateContentWithBackoff pf)) =
           [Fetch 0, Fetch 1, Fetch 2, Fetch 3, Fetch 4, Fetch 5, Fetch 6, Fetch 7]"
  by (simp add: backoff_all_503 [OF assms])

text \<open>
  Claim C2. When the service answers 503 to every call and \<^verbatim>\<open>Math.random()\<close> gives
  values in [0,1), \<^verbatim>\<open>generateContentWithBackoff\<close> calls \<^verbatim>\<open>fetch\<close> exactly 8 times
  (attempts 0 to 7) and never a ninth time, waits \<open>2 * 2 ^ n\<close> seconds plus the jitter
  before the retry that follows attempt \<open>n\<close>, for \<open>n\<close> from 0 to 6, and returns the 503
  response of the eighth call. Numbers are reals here; the waits are recorded in
  milliseconds, as \<^verbatim>\<open>setTimeout\<close> receives them.
\<close>

theorem backoff_503_eight_attempts:
  assumes always503: "\<forall>k. statusOf (fetch pf k) = Some 503"
    and jitter: "\<forall>k. 0 \<le> random pf k \<and> random pf k < 1"
  shows "(\<exists>r. fst (generateContentWithBackoff pf) = Inr (Some r)
              \<and> fetch pf 7 = Response r \<and> status r = 503 \<and> \<not> ok r)
         \<and> snd (generateContentWithBackoff pf) =
             concat (map (\<lambda>n. [Fetch n, Sleep ((2 * 2 ^ n + random pf n) * 1000)]) [0..<7])
               @ [Fetch 7]
         \<and> length (filter isFetch (snd (generateContentWithBackoff pf))) = 8
         \<and> Fetch 8 \<notin> set (snd (generateContentWithBackoff pf))
         \<and> (\<forall>n < 7. 2 * 2 ^ n \<le> 2 * 2 ^ n + random pf n
                    \<and> 2 * 2 ^ n + random pf n < 2 * 2 ^ n + 1)"
proof -
  have all: "\<forall>k < 8. statusOf (fetch pf k) = Some 503"
    using always503 by simp
  note run = backoff_all_503 [OF all]
  from always503 have "statusOf (fetch pf 7) = Some 503" by simp
  then obtain r where r: "fetch pf 7 = Response r" "status r = 503"
    by (cases "fetch pf 7") (auto simp: statusOf_def)
  have a: "\<exists>r. fst (generateContentWithBackoff pf) = Inr (Some r)
              \<and> fetch pf 7 = Response r \<and> status r = 503 \<and> \<not> ok r"
    using r by (simp add: run responseOf_def ok_def)
  have upt7: "[0..<7] = [0, 1, 2, 3, 4, 5, 6]"
    by (simp add: upt_rec)
  have b: "snd (generateContentWithBackoff pf) =
             concat (map (\<lambda>n. [Fetch n, Sleep ((2 * 2 ^ n + random pf n) * 1000)]) [0..<7])
               @ [Fetch 7]"
    by (simp add: run upt7)
  have c: "length (filter isFetch (snd (generateContentWithBackoff pf))) = 8"
    by (simp add: backoff_fetches [OF all])
  have d: "Fetch 8 \<notin> set (snd (generateContentWithBackoff pf))"
    by (simp add: run)
  have e: "\<forall>n < 7. 2 * 2 ^ n \<le> 2 * 2 ^ n + random pf n
                    \<and> 2 * 2 ^ n + random pf n < 2 * 2 ^ n + 1"
    using jitter by simp
  from a b c d e show ?thesis by blast
qed

theorem backoff_503_eight_attempts_witness:
  "(\<forall>k. statusOf (fetch overloadedService k) = Some 503)
   \<and> (\<forall>k. 0 \<le> random overloadedService k \<and> random overloadedService k < 1)
   \<and> length (filter isFetch (snd (generateContentWithBackoff overloadedService))) = 8
   \<and> snd (generateContentWithBackoff overloadedService) =
       [Fetch 0, Sleep 2500, Fetch 1, Sleep 4500, Fetch 2, Sleep 8500, Fetch 3, Sleep 16500,
        Fetch 4, Sleep 32500, Fetch 5, Sleep 64500, Fetch 6, Sleep 128500, Fetch 7]"
proof -
  have h1: "\<forall>k. statusOf (fetch overloadedService k) = Some 503"
    by (simp add: overloadedService_def statusOf_def)
  have h2: "\<forall>k. 0 \<le> random overloadedService k \<and> random overloadedService k < 1"
    by (simp add: overloadedService_def)
  note h = backoff_503_eight_attempts [OF h1 h2]
  have upt7: "[0..<7] = [0, 1, 2, 3, 4, 5, 6]"
    by (simp add: upt_rec)
  have c: "length (filter isFetch (snd (generateContentWithBackoff overloadedService))) = 8"
    using h by blast
  have "snd (generateContentWithBackoff overloadedService) =
             concat (map (\<lambda>n. [Fetch n, Sleep ((2 * 2 ^ n + random overloadedService n) * 1000)]) [0..<7])
               @ [Fetch 7]"
    using h by blast
  then have b: "snd (generateContentWithBackoff overloadedService) =
       [Fetch 0, Sleep 2500, Fetch 1, Sleep 4500, Fetch 2, Sleep 8500, Fetch 3, Sleep 16500,
        Fetch 4, Sleep 32500, Fetch 5, Sleep 64500, Fetch 6, Sleep 128500, Fetch 7]"
    by (simp add: upt7 overloadedService_def)
  from h1 h2 c b show ?thesis by blast
qed

lemma backoffLoop_no_download: "\<not> list_ex isDownload (snd (backoffLoop pf k))"
proof (induction pf k rule: backoffLoop.induct)
  case (1 pf attempt)
  show ?case
    using "1.IH"
    by (subst backoffLoop.simps)
       (auto split: fetchOutcome.splits prod.splits)
qed

lemma improve_no_download:
  "\<not> list_ex isDownload (snd (improveMarkdownWithGemini pf markdown apiKey))"
  using backoffLoop_no_download [of pf 0]
  by (auto simp: improveMarkdownWithGemini_def generateContentWithBackoff_def
           split: prod.splits sum.splits option.splits responseJson.splits)

text \<open>
  Claim C1, amended. When \<^verbatim>\<open>improveMarkdownWithGemini\<close> throws (with a missing API key the
  error is "Gemini API key not configured"), \<^verbatim>\<open>processAndDownloadWithGemini\<close> triggers no
  download and leaves the history as it was: its \<^verbatim>\<open>catch\<close> block shows the notification
  "Extraction Failed" with "Error: " and the message, sends \<^verbatim>\<open>processingComplete\<close> with
  \<^verbatim>\<open>success: false\<close>, and rethrows the error.
\<close>

theorem enrichment_failure_aborts:
  assumes failed: "fst (improveMarkdownWithGemini pf (r_markdown req) (r_apiKey req)) = Inl e"
  shows "processAndDownloadWithGemini pf captured timestamp req st =
           (Inl e,
            snd (improveMarkdownWithGemini pf (r_markdown req) (r_apiKey req))
              @ [Notification ''Extraction Failed'' (''Error: '' @ message e),
                 ProcessingComplete False (message e)],
            st)
         \<and> \<not> downloadTriggered (fst (snd (processAndDownloadWithGemini pf captured timestamp req st)))
         \<and> (r_apiKey req = [] \<longrightarrow> e = Error ''Gemini API key not configured'')"
proof -
  obtain res events where run: "improveMarkdownWithGemini pf (r_markdown req) (r_apiKey req) = (res, events)"
    by (cases "improveMarkdownWithGemini pf (r_markdown req) (r_apiKey req)")
  with failed have res: "res = Inl e" by simp
  have a: "processAndDownloadWithGemini pf captured timestamp req st =
           (Inl e,
            snd (improveMarkdownWithGemini pf (r_markdown req) (r_apiKey req))
              @ [Notification ''Extraction Failed'' (''Error: '' @ message e),
                 ProcessingComplete False (message e)],
            st)"
    by (simp add: processAndDownloadWithGemini_def run res)
  have "\<not> list_ex isDownload events"
    using improve_no_download [of pf "r_markdown req" "r_apiKey req"] by (simp add: run)
  then have b: "\<not> downloadTriggered (fst (snd (processAndDownloadWithGemini pf captured timestamp req st)))"
    by (simp add: a run downloadTriggered_def)
  have c: "r_apiKey req = [] \<longrightarrow> e = Error ''Gemini API key not configured''"
    using failed by (auto simp: improveMarkdownWithGemini_def)
  from a b c show ?thesis by blast
qed


theorem enrichment_failure_aborts_witness:
  "fst (improveMarkdownWithGemini overloadedService (r_markdown noKeyRequest) (r_apiKey noKeyRequest))
     = Inl (Error ''Gemini API key not configured'')
   \<and> processAndDownloadWithGemini overloadedService jan10 5 noKeyRequest None =
       (Inl (Error ''Gemini API key not configured''),
        [Notification ''Extraction Failed'' ''Error: Gemini API key not configured'',
         ProcessingComplete False ''Gemini API key not configured''],
        None)"
proof -
  have k: "r_apiKey noKeyRequest = []"
    by (simp add: noKeyRequest_def)
  have run: "improveMarkdownWithGemini overloadedService (r_markdown noKeyRequest) (r_apiKey noKeyRequest)
     = (Inl (Error ''Gemini API key not configured''), [])"
    by (simp add: improveMarkdownWithGemini_def k)
  then have f: "fst (improveMarkdownWithGemini overloadedService (r_markdown noKeyRequest) (r_apiKey noKeyRequest))
     = Inl (Error ''Gemini API key not configured'')"
    by simp
  from enrichment_failure_aborts [OF f, of jan10 5 None]
  have "processAndDownloadWithGemini overloadedService jan10 5 noKeyRequest None =
       (Inl (Error ''Gemini API key not configured''),
        [Notification ''Extraction Failed'' ''Error: Gemini API key not configured'',
         ProcessingComplete False ''Gemini API key not configured''],
        None)"
    by (simp add: run)
  with f show ?thesis by blast
qed

text \<open>
  Claim C1 as stated fails: with a service that answers 503 to every call the enrichment
  throws "Gemini API error: 503 - overloaded", and the run ends without a download and
  without a history entry.
\<close>

theorem enrichment_failure_counterexample:
  "fst (improveMarkdownWithGemini overloadedService (r_markdown exampleRequest) (r_apiKey exampleRequest))
     = Inl (Error ''Gemini API error: 503 - overloaded'')
   \<and> \<not> downloadTriggered
         (fst (snd (processAndDownloadWithGemini overloadedService jan10 5 exampleRequest None)))
   \<and> snd (snd (processAndDownloadWithGemini overloadedService jan10 5 exampleRequest None)) = None"
proof -
  have all: "\<forall>k < 8. statusOf (fetch overloadedService k) = Some 503"
    by (simp add: overloadedService_def statusOf_def)
  have d: "digitsOf 503 = ''503''" by code_simp
  have key: "r_apiKey exampleRequest \<noteq> []" by (simp add: exampleRequest_def)
  have r7: "responseOf (fetch overloadedService 7)
              = Some \<lparr>status = 503, bodyText = ''overloaded'', bodyJson = InvalidJson ''Unexpected token''\<rparr>"
    by (simp add: overloadedService_def responseOf_def)
  have run: "fst (improveMarkdownWithGemini overloadedService (r_markdown exampleRequest) (r_apiKey exampleRequest))
     = Inl (Error ''Gemini API error: 503 - overloaded'')"
    using key by (simp add: improveMarkdownWithGemini_def backoff_all_503 [OF all] r7 ok_def d)
  have "processAndDownloadWithGemini overloadedService jan10 5 exampleRequest None =
           (Inl (Error ''Gemini API error: 503 - overloaded''),
            snd (improveMarkdownWithGemini overloadedService (r_markdown exampleRequest) (r_apiKey exampleRequest))
              @ [Notification ''Extraction Failed'' (''Error: '' @ message (Error ''Gemini API error: 503 - overloaded'')),
                 ProcessingComplete False (message (Error ''Gemini API error: 503 - overloaded''))],
            None)"
    using run
    by (cases "improveMarkdownWithGemini overloadedService (r_markdown exampleRequest) (r_apiKey exampleRequest)")
       (simp add: processAndDownloadWithGemini_def)
  moreover have "\<not> list_ex isDownload
      (snd (improveMarkdownWithGemini overloadedService (r_markdown exampleRequest) (r_apiKey exampleRequest)))"
    by (rule improve_no_download)
  ultimately show ?thesis
    using run by (simp add: downloadTriggered_def)
qed

lemma trim_blank: "(\<forall>c \<in> set s. isWhiteSpace c) \<Longrightarrow> trim s = []"
  by (auto simp: trim_def dest: set_dropWhileD)

lemma trim_empty_iff: "trim s = [] \<longleftrightarrow> (\<forall>c \<in> set s. isWhiteSpace c)"
proof
  assume "trim s = []"
  then have "dropWhile isWhiteSpace (rev (dropWhile isWhiteSpace s)) = []"
    by (simp add: trim_def)
  then have all: "\<forall>c \<in> set (dropWhile isWhiteSpace s). isWhiteSpace c"
    by simp
  have "dropWhile isWhiteSpace s = []"
  proof (cases "dropWhile isWhiteSpace s")
    case Nil
    then show ?thesis .
  next
    case (Cons x xs)
    with hd_dropWhile [of isWhiteSpace s] have "\<not> isWhiteSpace x" by simp
    moreover from all Cons have "isWhiteSpace x" by simp
    ultimately show ?thesis by simp
  qed
  then show "\<forall>c \<in> set s. isWhiteSpace c"
    by simp
qed (rule trim_blank)

lemma contentToUse_blank:
  "(\<forall>c \<in> set (content improved). isWhiteSpace c) \<Longrightarrow> contentToUse markdown improved = markdown"
  by (simp add: contentToUse_def trim_blank)

lemma contentToUse_eq:
  "contentToUse markdown improved =
     (if \<forall>c \<in> set (content improved). isWhiteSpace c then markdown else content improved)"
  by (auto simp: contentToUse_def trim_empty_iff)

lemma createMetadata_renders:
  assumes "publicationDate pc = None" "hostnameOf pf u = Some h"
  shows "\<exists>frontMatter. createMetadata pf captured pc u cat g = Inr frontMatter"
  using assms by (simp add: createMetadata_def Let_def)

text \<open>
  Claim C3, amended. When the enrichment result's content is empty or white space only and
  the front matter can be rendered, the pipeline delivers the front matter followed by the
  original markdown: the body of the artifact is the pre-enrichment markdown, and it is
  empty exactly when that markdown is empty.
\<close>

theorem blank_content_uses_markdown:
  assumes run: "improveMarkdownWithGemini pf (r_markdown req) (r_apiKey req)
                  = (Inr (Some improved), events)"
    and blank: "\<forall>c \<in> set (content improved). isWhiteSpace c"
    and rendered: "createMetadata pf captured (r_pageContent req) (r_url req) (r_category req)
                     (Some improved) = Inr frontMatter"
  shows "contentToUse (r_markdown req) improved = r_markdown req
         \<and> finalContentOf pf captured req (Some improved) = Inr (frontMatter @ r_markdown req)
         \<and> processAndDownloadWithGemini pf captured timestamp req st =
             (Inr (),
              events @
              [Download (dataUrl (frontMatter @ r_markdown req)) (r_filename req) True,
               StorageSet (getExtractedUrls (addExtractedUrl (r_url req) timestamp st)),
               Notification ''Page Extraction Complete''
                 (''File '' @ [CHR 0x22] @ r_filename req @ [CHR 0x22]
                    @ '' has been downloaded successfully.''),
               ProcessingComplete True (r_filename req)],
              addExtractedUrl (r_url req) timestamp st)
         \<and> (contentToUse (r_markdown req) improved = [] \<longleftrightarrow> r_markdown req = [])"
proof -
  have a: "contentToUse (r_markdown req) improved = r_markdown req"
    by (rule contentToUse_blank [OF blank])
  have b: "finalContentOf pf captured req (Some improved) = Inr (frontMatter @ r_markdown req)"
    by (simp add: finalContentOf_def rendered a)
  have c: "processAndDownloadWithGemini pf captured timestamp req st =
             (Inr (),
              events @
              [Download (dataUrl (frontMatter @ r_markdown req)) (r_filename req) True,
               StorageSet (getExtractedUrls (addExtractedUrl (r_url req) timestamp st)),
               Notification ''Page Extraction Complete''
                 (''File '' @ [CHR 0x22] @ r_filename req @ [CHR 0x22]
                    @ '' has been downloaded successfully.''),
               ProcessingComplete True (r_filename req)],
              addExtractedUrl (r_url req) timestamp st)"
    by (simp add: processAndDownloadWithGemini_def run b)
  from a b c show ?thesis by simp
qed

lemma blank_service_run:
  assumes "apiKey \<noteq> []"
  shows "improveMarkdownWithGemini blankContentService markdown apiKey
           = (Inr (Some blankResult), [Fetch 0])"
proof -
  have p: "parseImprovedContent (''## Content'' @ [CHR 0x0A] @ ''   '') = blankResult"
    by code_simp
  have "backoffLoop blankContentService 0 =
          (Inr (Some \<lparr>status = 200, bodyText = [],
                      bodyJson = PartText (''## Content'' @ [CHR 0x0A] @ ''   '')\<rparr>), [Fetch 0])"
    by (subst backoffLoop.simps) (simp add: blankContentService_def maxRetries_def ok_def)
  then show ?thesis
    using assms p
    by (simp add: improveMarkdownWithGemini_def generateContentWithBackoff_def ok_def)
qed

theorem blank_content_uses_markdown_witness:
  "improveMarkdownWithGemini blankContentService (r_markdown exampleRequest) (r_apiKey exampleRequest)
     = (Inr (Some blankResult), [Fetch 0])
   \<and> content blankResult = []
   \<and> contentToUse (r_markdown exampleRequest) blankResult = ''Some text.''
   \<and> (\<exists>frontMatter.
         createMetadata blankContentService jan10 (r_pageContent exampleRequest)
           (r_url exampleRequest) (r_category exampleRequest) (Some blankResult) = Inr frontMatter
         \<and> finalContentOf blankContentService jan10 exampleRequest (Some blankResult)
             = Inr (frontMatter @ ''Some text.''))"
proof -
  have key: "r_apiKey exampleRequest \<noteq> []" by (simp add: exampleRequest_def)
  note run = blank_service_run [OF key, of "r_markdown exampleRequest"]
  have c0: "content blankResult = []"
    by (simp add: blankResult_def)
  then have blank: "\<forall>c \<in> set (content blankResult). isWhiteSpace c"
    by simp
  have "publicationDate (r_pageContent exampleRequest) = None"
    "hostnameOf blankContentService (r_url exampleRequest) = Some ''example.com''"
    by (simp_all add: exampleRequest_def tipsPage_def blankContentService_def)
  from createMetadata_renders [OF this] obtain frontMatter where
    fm: "createMetadata blankContentService jan10 (r_pageContent exampleRequest)
           (r_url exampleRequest) (r_category exampleRequest) (Some blankResult) = Inr frontMatter"
    by blast
  have md: "r_markdown exampleRequest = ''Some text.''" by (simp add: exampleRequest_def)
  note h = blank_content_uses_markdown [OF run blank fm, of 5 None]
  have use: "contentToUse (r_markdown exampleRequest) blankResult = ''Some text.''"
    using h by (simp add: md)
  have "finalContentOf blankContentService jan10 exampleRequest (Some blankResult)
             = Inr (frontMatter @ ''Some text.'')"
    using h by (simp add: md)
  with run c0 use fm show ?thesis by blast
qed

text \<open>
  Claim C3 as stated fails in its last part: when the pre-enrichment markdown is itself
  empty and the model returns a blank content section, the artifact is delivered with an
  empty body (the final content is the front matter alone).
\<close>

theorem blank_content_counterexample:
  "improveMarkdownWithGemini blankContentService (r_markdown emptyMarkdownRequest)
       (r_apiKey emptyMarkdownRequest)
     = (Inr (Some blankResult), [Fetch 0])
   \<and> content blankResult = []
   \<and> downloadTriggered
       (fst (snd (processAndDownloadWithGemini blankContentService jan10 5 emptyMarkdownRequest None)))
   \<and> contentToUse (r_markdown emptyMarkdownRequest) blankResult = []
   \<and> finalContentOf blankContentService jan10 emptyMarkdownRequest (Some blankResult)
       = createMetadata blankContentService jan10 (r_pageContent emptyMarkdownRequest)
           (r_url emptyMarkdownRequest) (r_category emptyMarkdownRequest) (Some blankResult)"
proof -
  have key: "r_apiKey emptyMarkdownRequest \<noteq> []"
    by (simp add: emptyMarkdownRequest_def exampleRequest_def)
  note run = blank_service_run [OF key, of "r_markdown emptyMarkdownRequest"]
  have c0: "content blankResult = []" by (simp add: blankResult_def)
  have md: "r_markdown emptyMarkdownRequest = []" by (simp add: emptyMarkdownRequest_def)
  have use: "contentToUse (r_markdown emptyMarkdownRequest) blankResult = []"
    by (simp add: contentToUse_def c0 md)
  have "publicationDate (r_pageContent emptyMarkdownRequest) = None"
    "hostnameOf blankContentService (r_url emptyMarkdownRequest) = Some ''example.com''"
    by (simp_all add: emptyMarkdownRequest_def exampleRequest_def tipsPage_def blankContentService_def)
  from createMetadata_renders [OF this] obtain frontMatter where
    fm: "createMetadata blankContentService jan10 (r_pageContent emptyMarkdownRequest)
           (r_url emptyMarkdownRequest) (r_category emptyMarkdownRequest) (Some blankResult) = Inr frontMatter"
    by blast
  have fin: "finalContentOf blankContentService jan10 emptyMarkdownRequest (Some blankResult)
               = Inr frontMatter"
    by (simp add: finalContentOf_def fm use)
  have dl: "downloadTriggered
       (fst (snd (processAndDownloadWithGemini blankContentService jan10 5 emptyMarkdownRequest None)))"
    by (simp add: processAndDownloadWithGemini_def run fin downloadTriggered_def)
  from run c0 dl use fin fm show ?thesis by simp
qed

section \<open>Facts about the fallback parser\<close>

lemma fallbackLoop_spec: "fallbackLoop ps fullText [] = fallbackField_spec ps fullText"
proof (induction ps)
  case Nil
  then show ?case by (simp add: fallbackField_spec_def)
next
  case (Cons p ps)
  then show ?case
    by (cases "regexMatch p fullText")
       (auto simp: fallbackField_spec_def fallbackCandidate_def usable_def Let_def)
qed

lemma matchHere_lit:
  "matchHere (lit h @ items) s cap =
     (if prefix h s then matchHere items (drop (length h) s) cap else None)"
proof (induction h arbitrary: s)
  case Nil
  then show ?case by (simp add: lit_def)
next
  case (Cons c h)
  have step: "lit (c # h) @ items = Chars (Lit c) Once False # (lit h @ items)"
    by (simp add: lit_def)
  show ?case
  proof (cases s)
    case Nil
    then show ?thesis by (simp add: step)
  next
    case (Cons x xs)
    with Cons.IH [of xs] show ?thesis by (simp add: step capture_def)
  qed
qed

lemma matchHere_lit_end:
  "matchHere (lit h) s cap = (if prefix h s then Some cap else None)"
  using matchHere_lit [of h "[]" s cap] by simp

lemma matchHere_lazy_lit:
  "matchHere (Chars AnyChar LazyMany True # lit f) s cap \<noteq> None \<longleftrightarrow> sublist f s"
proof (induction s arbitrary: cap)
  case Nil
  then show ?case by (simp add: matchHere_lit_end)
next
  case (Cons x xs)
  show ?case
  proof (cases "prefix f (x # xs)")
    case True
    then show ?thesis by (auto simp: matchHere_lit_end intro: prefix_imp_sublist)
  next
    case False
    then have "f \<noteq> []" by auto
    then obtain c cs where f: "f = c # cs" by (cases f) auto
    from False Cons.IH [of "capture True cap [x]"] show ?thesis
      by (auto simp: matchHere_lit_end f sublist_Cons_right)
  qed
qed

lemma regexMatch_iff:
  "regexMatch items s \<noteq> None \<longleftrightarrow> (\<exists>a rest. s = a @ rest \<and> matchHere items rest [] \<noteq> None)"
proof (induction s)
  case Nil
  then show ?case by simp
next
  case (Cons x xs)
  show ?case
  proof (cases "matchHere items (x # xs) []")
    case (Some r)
    then have "x # xs = [] @ (x # xs) \<and> matchHere items (x # xs) [] \<noteq> None" by simp
    then show ?thesis using Some by (metis option.distinct(1) option.simps(5) regexMatch.simps(2))
  next
    case None
    have "(\<exists>a rest. x # xs = a @ rest \<and> matchHere items rest [] \<noteq> None)
            \<longleftrightarrow> (\<exists>a rest. xs = a @ rest \<and> matchHere items rest [] \<noteq> None)"
    proof
      assume "\<exists>a rest. x # xs = a @ rest \<and> matchHere items rest [] \<noteq> None"
      then obtain a rest where ar: "x # xs = a @ rest" "matchHere items rest [] \<noteq> None" by blast
      with None have "a \<noteq> []" by auto
      then obtain a' where "a = x # a'" using ar(1) by (cases a) auto
      with ar show "\<exists>a rest. xs = a @ rest \<and> matchHere items rest [] \<noteq> None" by auto
    next
      assume "\<exists>a rest. xs = a @ rest \<and> matchHere items rest [] \<noteq> None"
      then obtain a rest where "xs = a @ rest" "matchHere items rest [] \<noteq> None" by blast
      then have "x # xs = (x # a) @ rest \<and> matchHere items rest [] \<noteq> None" by simp
      then show "\<exists>a rest. x # xs = a @ rest \<and> matchHere items rest [] \<noteq> None" by blast
    qed
    with None Cons.IH show ?thesis by simp
  qed
qed

lemma metadataRegex_matches_iff:
  "regexMatch metadataRegex fullText \<noteq> None \<longleftrightarrow>
     (\<exists>a b c. fullText = a @ metadataHeader @ b @ contentHeader @ c)"
proof -
  have m: "matchHere metadataRegex rest [] \<noteq> None \<longleftrightarrow>
             (\<exists>b c. rest = metadataHeader @ b @ contentHeader @ c)" for rest
  proof -
    have "matchHere metadataRegex rest [] =
            (if prefix metadataHeader rest
             then matchHere (Chars AnyChar LazyMany True # lit contentHeader)
                    (drop (length metadataHeader) rest) []
             else None)"
      unfolding metadataRegex_def metadataHeader_def [symmetric] contentHeader_def [symmetric]
      using matchHere_lit [of metadataHeader "Chars AnyChar LazyMany True # lit contentHeader" rest "[]"]
      by simp
    then have "matchHere metadataRegex rest [] \<noteq> None \<longleftrightarrow>
                 prefix metadataHeader rest \<and> sublist contentHeader (drop (length metadataHeader) rest)"
      using matchHere_lazy_lit [of contentHeader "drop (length metadataHeader) rest" "[]"]
      by auto
    also have "\<dots> \<longleftrightarrow> (\<exists>b c. rest = metadataHeader @ b @ contentHeader @ c)"
      by (auto simp: prefix_def sublist_def; blast)
    finally show ?thesis .
  qed
  show ?thesis
    unfolding regexMatch_iff m by (auto simp: append.assoc)
qed

lemma toLowerChar_s: "toLowerChar x = CHR ''s'' \<longleftrightarrow> x = CHR ''s'' \<or> x = CHR ''S''"
  unfolding toLowerChar_def upperCaseLetters_def lowerCaseLetters_def
  by (auto split: if_splits)

lemma inClass_s: "inClass (LitI CHR ''s'') x \<longleftrightarrow> x = CHR ''s'' \<or> x = CHR ''S''"
proof -
  have low: "toLowerChar CHR ''s'' = CHR ''s''" by code_simp
  show ?thesis by (simp only: inClass.simps low toLowerChar_s)
qed

lemma ws_facts:
  "isWhiteSpace CHR 0x0A" "\<not> isWhiteSpace CHR ''[''" "\<not> isWhiteSpace CHR '':''"
  "\<not> isWhiteSpace CHR ''s''" "\<not> isWhiteSpace CHR ''S''"
  by (simp_all add: isWhiteSpace_def)

lemma matchHere_list_body:
  "matchHere [Chars (NoneOf '']'') Many True, Chars (Lit CHR '']'') Once False] r cap =
     (if CHR '']'' \<in> set r then Some (cap @ takeWhile (\<lambda>x. x \<noteq> CHR '']'') r) else None)"
proof (induction r arbitrary: cap)
  case Nil
  then show ?case by simp
next
  case (Cons x xs)
  then show ?case by (simp add: capture_def)
qed

lemma matchHere_bracket:
  "matchHere [Chars (Lit CHR ''['') Once False, Chars (NoneOf '']'') Many True,
              Chars (Lit CHR '']'') Once False] s cap =
     (case s of
        [] \<Rightarrow> None
      | c # r \<Rightarrow> if c = CHR ''['' \<and> CHR '']'' \<in> set r
                 then Some (cap @ takeWhile (\<lambda>x. x \<noteq> CHR '']'') r) else None)"
  by (cases s) (simp_all add: matchHere_list_body capture_def)

lemma matchHere_ws_bracket:
  "matchHere [Chars Space Many False, Chars (Lit CHR ''['') Once False,
              Chars (NoneOf '']'') Many True, Chars (Lit CHR '']'') Once False] s cap =
   matchHere [Chars (Lit CHR ''['') Once False, Chars (NoneOf '']'') Many True,
              Chars (Lit CHR '']'') Once False] (dropWhile isWhiteSpace s) cap"
proof (induction s)
  case Nil
  then show ?case by simp
next
  case (Cons x xs)
  show ?case
  proof (cases "isWhiteSpace x")
    case True
    then have "x \<noteq> CHR ''[''" using ws_facts(2) by auto
    then have "matchHere [Chars (Lit CHR ''['') Once False, Chars (NoneOf '']'') Many True,
              Chars (Lit CHR '']'') Once False] (x # xs) cap = None"
      by simp
    with True Cons.IH show ?thesis
      by (simp add: capture_def split: option.splits)
  next
    case False
    then show ?thesis by simp
  qed
qed

lemma matchHere_bracket_tail:
  "matchHere [Chars (LitI CHR ''s'') Optional False, Chars (Lit CHR '':'') Optional False,
              Chars Space Many False, Chars (Lit CHR ''['') Once False,
              Chars (NoneOf '']'') Many True, Chars (Lit CHR '']'') Once False] r cap =
     (case valueStart_spec r of
        [] \<Rightarrow> None
      | c # t \<Rightarrow> if c = CHR ''['' \<and> CHR '']'' \<in> set t
                 then Some (cap @ takeWhile (\<lambda>x. x \<noteq> CHR '']'') t) else None)"
proof -
  let ?B0 = "[Chars (Lit CHR ''['') Once False, Chars (NoneOf '']'') Many True,
              Chars (Lit CHR '']'') Once False]"
  let ?B1 = "Chars Space Many False # ?B0"
  let ?B2 = "Chars (Lit CHR '':'') Optional False # ?B1"
  let ?B3 = "Chars (LitI CHR ''s'') Optional False # ?B2"
  have b1: "matchHere ?B1 s cap = matchHere ?B0 (dropWhile isWhiteSpace s) cap" for s
    by (rule matchHere_ws_bracket)
  have b2: "matchHere ?B2 s cap
              = matchHere ?B0 (dropWhile isWhiteSpace (optionalChar_spec (\<lambda>c. c = CHR '':'') s)) cap" for s
  proof (cases s)
    case Nil
    then show ?thesis using b1 [of "[]"] by (simp add: optionalChar_spec_def)
  next
    case (Cons x xs)
    show ?thesis
    proof (cases "x = CHR '':''")
      case True
      have "matchHere ?B1 (CHR '':'' # xs) cap = None"
        unfolding b1 using ws_facts(3) by (simp add: matchHere_bracket)
      then show ?thesis
        using True Cons b1 [of xs]
        by (simp add: optionalChar_spec_def capture_def split: option.splits)
    next
      case False
      then show ?thesis using Cons b1 [of "x # xs"] by (simp add: optionalChar_spec_def)
    qed
  qed
  have b3: "matchHere ?B3 s cap = matchHere ?B0 (valueStart_spec s) cap" for s
  proof (cases s)
    case Nil
    then show ?thesis using b2 [of "[]"] by (simp add: valueStart_spec_def optionalChar_spec_def)
  next
    case (Cons x xs)
    show ?thesis
    proof (cases "x = CHR ''s'' \<or> x = CHR ''S''")
      case True
      then have "matchHere ?B2 (x # xs) cap = None"
        unfolding b2 using ws_facts(4,5)
        by (auto simp: matchHere_bracket optionalChar_spec_def)
      then show ?thesis
        using True Cons b2 [of xs] inClass_s [of x]
        by (simp add: valueStart_spec_def optionalChar_spec_def capture_def split: option.splits)
    next
      case False
      then show ?thesis
        using Cons b2 [of "x # xs"] inClass_s [of x]
        by (simp add: valueStart_spec_def optionalChar_spec_def)
    qed
  qed
  show ?thesis
    unfolding b3 by (rule matchHere_bracket)
qed

lemma matchHere_line_rest:
  "matchHere [Chars (NoneOf [CHR 0x0A]) Many True] s cap
     = Some (cap @ takeWhile (\<lambda>x. x \<noteq> CHR 0x0A) s)"
proof (induction s arbitrary: cap)
  case Nil
  then show ?case by simp
next
  case (Cons x xs)
  then show ?case by (simp add: capture_def)
qed

lemma ws_line_main:
  assumes "dropWhile isWhiteSpace s \<noteq> []"
  shows "matchHere [Chars Space Many False, Chars (NoneOf [CHR 0x0A]) Many1 True] s cap
           = Some (cap @ takeWhile (\<lambda>x. x \<noteq> CHR 0x0A) (dropWhile isWhiteSpace s))"
  using assms
proof (induction s)
  case Nil
  then show ?case by simp
next
  case (Cons x xs)
  show ?case
  proof (cases "isWhiteSpace x")
    case True
    with Cons show ?thesis by (simp add: capture_def)
  next
    case False
    then have "x \<noteq> CHR 0x0A" using ws_facts(1) by auto
    with False show ?thesis by (simp add: matchHere_line_rest capture_def)
  qed
qed

lemma only_line_feeds:
  assumes "filter (\<lambda>c. c \<noteq> CHR 0x0A) xs = []"
  shows "takeWhile (\<lambda>c. c \<noteq> CHR 0x0A) xs = []"
  using assms by (cases xs) (auto split: if_splits)

lemma ws_line_rest:
  assumes "\<forall>c \<in> set s. isWhiteSpace c"
  shows "matchHere [Chars Space Many False, Chars (NoneOf [CHR 0x0A]) Many1 True] s cap =
           (case filter (\<lambda>c. c \<noteq> CHR 0x0A) s of
              [] \<Rightarrow> None
            | c # cs \<Rightarrow> Some (cap @ [last (c # cs)]))"
  using assms
proof (induction s)
  case Nil
  then show ?case by simp
next
  case (Cons x xs)
  let ?W = "[Chars Space Many False, Chars (NoneOf [CHR 0x0A]) Many1 True]"
  from Cons.prems have x: "isWhiteSpace x" and xs: "\<forall>c \<in> set xs. isWhiteSpace c" by auto
  note IH = Cons.IH [OF xs]
  show ?case
  proof (cases "filter (\<lambda>c. c \<noteq> CHR 0x0A) xs")
    case Nil
    with IH have "matchHere ?W xs cap = None" by simp
    with x Nil only_line_feeds [OF Nil] show ?thesis
      by (simp add: capture_def matchHere_line_rest)
  next
    case (Cons c cs)
    with IH have "matchHere ?W xs cap = Some (cap @ [last (c # cs)])" by simp
    with x Cons show ?thesis
      by (simp add: capture_def)
  qed
qed

lemma bare_tail_main:
  assumes "valueStart_spec r \<noteq> []"
  shows "matchHere [Chars (LitI CHR ''s'') Optional False, Chars (Lit CHR '':'') Optional False,
                    Chars Space Many False, Chars (NoneOf [CHR 0x0A]) Many1 True] r cap
           = Some (cap @ takeWhile (\<lambda>x. x \<noteq> CHR 0x0A) (valueStart_spec r))"
proof -
  let ?W = "[Chars Space Many False, Chars (NoneOf [CHR 0x0A]) Many1 True]"
  let ?C = "Chars (Lit CHR '':'') Optional False # ?W"
  let ?skipC = "\<lambda>s. dropWhile isWhiteSpace (optionalChar_spec (\<lambda>c. c = CHR '':'') s)"
  have c: "matchHere ?C s cap = Some (cap @ takeWhile (\<lambda>x. x \<noteq> CHR 0x0A) (?skipC s))"
    if "?skipC s \<noteq> []" for s
  proof (cases s)
    case Nil
    with that show ?thesis by (simp add: optionalChar_spec_def)
  next
    case (Cons x xs)
    show ?thesis
    proof (cases "x = CHR '':''")
      case True
      with Cons that have "dropWhile isWhiteSpace xs \<noteq> []"
        by (simp add: optionalChar_spec_def)
      from ws_line_main [OF this, of cap] True Cons show ?thesis
        by (simp add: optionalChar_spec_def capture_def)
    next
      case False
      with Cons that have "dropWhile isWhiteSpace (x # xs) \<noteq> []"
        by (simp add: optionalChar_spec_def)
      from ws_line_main [OF this, of cap] False Cons show ?thesis
        by (simp add: optionalChar_spec_def)
    qed
  qed
  show ?thesis
  proof (cases r)
    case Nil
    with assms show ?thesis by (simp add: valueStart_spec_def optionalChar_spec_def)
  next
    case (Cons x xs)
    show ?thesis
    proof (cases "x = CHR ''s'' \<or> x = CHR ''S''")
      case True
      with Cons assms have "?skipC xs \<noteq> []"
        by (auto simp: valueStart_spec_def optionalChar_spec_def)
      from c [OF this] True Cons inClass_s [of x] show ?thesis
        by (auto simp: valueStart_spec_def optionalChar_spec_def capture_def)
    next
      case False
      with Cons assms have "?skipC (x # xs) \<noteq> []"
        by (auto simp: valueStart_spec_def optionalChar_spec_def)
      from c [OF this] False Cons inClass_s [of x] show ?thesis
        by (auto simp: valueStart_spec_def optionalChar_spec_def)
    qed
  qed
qed

lemma bare_tail_rest:
  assumes "valueStart_spec r = []"
  shows "matchHere [Chars (LitI CHR ''s'') Optional False, Chars (Lit CHR '':'') Optional False,
                    Chars Space Many False, Chars (NoneOf [CHR 0x0A]) Many1 True] r cap =
           (case filter (\<lambda>c. c \<noteq> CHR 0x0A) r of
              [] \<Rightarrow> None
            | c # cs \<Rightarrow> Some (cap @ [last (c # cs)]))"
proof -
  let ?W = "[Chars Space Many False, Chars (NoneOf [CHR 0x0A]) Many1 True]"
  let ?C = "Chars (Lit CHR '':'') Optional False # ?W"
  let ?skipC = "\<lambda>s. dropWhile isWhiteSpace (optionalChar_spec (\<lambda>c. c = CHR '':'') s)"
  let ?res = "\<lambda>s. (case filter (\<lambda>c. c \<noteq> CHR 0x0A) s of
                       [] \<Rightarrow> None | c # cs \<Rightarrow> Some (cap @ [last (c # cs)]))"
  have white: "\<forall>c \<in> set s. isWhiteSpace c" if "dropWhile isWhiteSpace s = []" for s
    using that by (simp add: dropWhile_eq_Nil_conv)
  have here: "matchHere ?W (x # xs) cap = ?res (x # xs)"
    if x: "\<not> isWhiteSpace x" and xs: "filter (\<lambda>c. c \<noteq> CHR 0x0A) xs = []" for x xs
  proof -
    from x have "x \<noteq> CHR 0x0A" using ws_facts(1) by auto
    with x xs only_line_feeds [OF xs] show ?thesis
      by (simp add: matchHere_line_rest capture_def)
  qed
  have c: "matchHere ?C s cap = ?res s" if "?skipC s = []" for s
  proof (cases s)
    case Nil
    then show ?thesis by simp
  next
    case (Cons x xs)
    show ?thesis
    proof (cases "x = CHR '':''")
      case True
      with that Cons have xs: "\<forall>c \<in> set xs. isWhiteSpace c"
        by (simp add: optionalChar_spec_def dropWhile_eq_Nil_conv)
      show ?thesis
      proof (cases "filter (\<lambda>c. c \<noteq> CHR 0x0A) xs")
        case Nil
        with ws_line_rest [OF xs, of cap] have "matchHere ?W xs cap = None" by simp
        moreover have "matchHere ?W (CHR '':'' # xs) cap = ?res (CHR '':'' # xs)"
          using ws_facts(3) Nil by (rule here)
        ultimately show ?thesis
          using True Cons by (simp add: capture_def)
      next
        case (Cons d ds)
        with ws_line_rest [OF xs, of cap] have "matchHere ?W xs cap = Some (cap @ [last (d # ds)])"
          by simp
        with True Cons \<open>s = x # xs\<close> show ?thesis
          by (simp add: capture_def)
      qed
    next
      case False
      with that Cons have "dropWhile isWhiteSpace s = []"
        by (simp add: optionalChar_spec_def)
      then have "\<forall>c \<in> set s. isWhiteSpace c"
        by (rule white)
      from ws_line_rest [OF this, of cap] False Cons show ?thesis
        by simp
    qed
  qed
  show ?thesis
  proof (cases r)
    case Nil
    then show ?thesis using c [of "[]"] by (simp add: optionalChar_spec_def)
  next
    case (Cons x xs)
    show ?thesis
    proof (cases "x = CHR ''s'' \<or> x = CHR ''S''")
      case True
      with assms Cons have skip: "?skipC xs = []"
        by (auto simp: valueStart_spec_def optionalChar_spec_def)
      from True have nc: "x \<noteq> CHR '':''" and nw: "\<not> isWhiteSpace x"
        using ws_facts(4,5) by auto
      show ?thesis
      proof (cases "filter (\<lambda>c. c \<noteq> CHR 0x0A) xs")
        case Nil
        with c [OF skip] have "matchHere ?C xs cap = None" by simp
        moreover have "matchHere ?W (x # xs) cap = ?res (x # xs)"
          using nw Nil by (rule here)
        then have "matchHere ?C (x # xs) cap = ?res (x # xs)"
          using nc by simp
        ultimately show ?thesis
          using True Cons inClass_s [of x] by (auto simp: capture_def)
      next
        case (Cons d ds)
        with c [OF skip] have "matchHere ?C xs cap = Some (cap @ [last (d # ds)])"
          by simp
        with True Cons \<open>r = x # xs\<close> inClass_s [of x] show ?thesis
          by (auto simp: capture_def)
      qed
    next
      case False
      with assms Cons have "?skipC r = []"
        by (auto simp: valueStart_spec_def optionalChar_spec_def)
      from c [OF this] False Cons inClass_s [of x] show ?thesis
        by simp
    qed
  qed
qed

lemma matchHere_litI:
  "matchHere (litI w @ items) s cap =
     (if map toLowerChar (take (length w) s) = map toLowerChar w
      then matchHere items (drop (length w) s) cap else None)"
proof (induction w arbitrary: s)
  case Nil
  then show ?case by (simp add: litI_def)
next
  case (Cons c w)
  have step: "litI (c # w) @ items = Chars (LitI c) Once False # (litI w @ items)"
    by (simp add: litI_def)
  show ?case
  proof (cases s)
    case Nil
    then show ?thesis by (simp add: step)
  next
    case (Cons x xs)
    with Cons.IH [of xs] show ?thesis by (simp add: step capture_def)
  qed
qed

lemma matchHere_underscoreOrSpace:
  "matchHere (underscoreOrSpace # items) s cap =
     (case s of
        [] \<Rightarrow> None
      | c # r \<Rightarrow> if c = CHR ''_'' \<or> isWhiteSpace c then matchHere items r cap else None)"
  by (cases s) (simp_all add: underscoreOrSpace_def capture_def)

lemma label_one_word:
  assumes "map toLowerChar label = w"
  shows "matchHere (litI label @ items) s cap =
           (case afterLabel_spec [w] s of None \<Rightarrow> None | Some r \<Rightarrow> matchHere items r cap)"
proof -
  have "length label = length w" using assms by auto
  then show ?thesis
    using assms by (simp add: matchHere_litI toLowerCase_def)
qed

lemma label_two_words:
  assumes "map toLowerChar label1 = w1" "map toLowerChar label2 = w2"
  shows "matchHere ((litI label1 @ [underscoreOrSpace] @ litI label2) @ items) s cap =
           (case afterLabel_spec [w1, w2] s of None \<Rightarrow> None | Some r \<Rightarrow> matchHere items r cap)"
proof -
  have len: "length label1 = length w1" "length label2 = length w2" using assms by auto
  have "matchHere (litI label1 @ (underscoreOrSpace # (litI label2 @ items))) s cap =
           (case afterLabel_spec [w1, w2] s of None \<Rightarrow> None | Some r \<Rightarrow> matchHere items r cap)"
    unfolding matchHere_litI matchHere_underscoreOrSpace
    using assms len by (simp add: toLowerCase_def split: list.splits)
  then show ?thesis by simp
qed

lemma fallbackPatterns_semantics:
  assumes label: "\<And>items s cap. matchHere (labelItems @ items) s cap =
                    (case afterLabel_spec labelWords s of
                       None \<Rightarrow> None | Some r \<Rightarrow> matchHere items r cap)"
  shows "length (fallbackPatterns labelItems) = 2"
    and "matchHere (fallbackPatterns labelItems ! 0) s [] = bracketedList_spec labelWords s"
    and "matchHere (fallbackPatterns labelItems ! 1) s [] = bareLine_spec labelWords s"
proof -
  show "length (fallbackPatterns labelItems) = 2"
    by (simp add: fallbackPatterns_def)
  show "matchHere (fallbackPatterns labelItems ! 0) s [] = bracketedList_spec labelWords s"
    by (simp add: fallbackPatterns_def label matchHere_bracket_tail bracketedList_spec_def
          split: option.splits list.splits)
  have bare: "matchHere (fallbackPatterns labelItems ! 1) s [] =
                (case afterLabel_spec labelWords s of
                   None \<Rightarrow> None
                 | Some r \<Rightarrow>
                     matchHere [Chars (LitI CHR ''s'') Optional False, Chars (Lit CHR '':'') Optional False,
                                Chars Space Many False, Chars (NoneOf [CHR 0x0A]) Many1 True] r [])"
    by (simp add: fallbackPatterns_def label)
  show "matchHere (fallbackPatterns labelItems ! 1) s [] = bareLine_spec labelWords s"
  proof (cases "afterLabel_spec labelWords s")
    case None
    then show ?thesis unfolding bare by (simp add: bareLine_spec_def)
  next
    case (Some r)
    show ?thesis
    proof (cases "valueStart_spec r")
      case Nil
      from bare_tail_rest [OF this, of "[]"] Some Nil show ?thesis
        unfolding bare by (simp add: bareLine_spec_def split: list.splits)
    next
      case (Cons c t)
      then have "valueStart_spec r \<noteq> []" by simp
      from bare_tail_main [OF this, of "[]"] Some Cons show ?thesis
        unfolding bare by (simp add: bareLine_spec_def)
    qed
  qed
qed

lemma regexMatch_leftmost:
  "regexMatch items s = leftmostMatch_spec (\<lambda>rest. matchHere items rest []) s"
proof (induction s)
  case Nil
  then show ?case by (simp add: leftmostMatch_spec_def split: option.splits)
next
  case (Cons x xs)
  then show ?case
    by (cases "matchHere items (x # xs) []") (simp_all add: leftmostMatch_spec_def)
qed

lemma field_patterns:
  assumes "(labelWords, patterns') \<in>
             {([''technologie''], techPatterns), ([''programming'', ''language''], langPatterns),
              ([''tag''], tagsPatterns), ([''key'', ''concept''], conceptPatterns)}"
  shows "\<exists>labelItems. patterns' = fallbackPatterns labelItems
           \<and> (\<forall>items s cap. matchHere (labelItems @ items) s cap =
                  (case afterLabel_spec labelWords s of
                     None \<Rightarrow> None | Some r \<Rightarrow> matchHere items r cap))"
proof -
  have t: "map toLowerChar ''Technologie'' = ''technologie''" by code_simp
  have p: "map toLowerChar ''Programming'' = ''programming''" by code_simp
  have l: "map toLowerChar ''Language'' = ''language''" by code_simp
  have g: "map toLowerChar ''Tag'' = ''tag''" by code_simp
  have k: "map toLowerChar ''Key'' = ''key''" by code_simp
  have c: "map toLowerChar ''Concept'' = ''concept''" by code_simp
  from assms consider
      "labelWords = [''technologie'']" "patterns' = techPatterns"
    | "labelWords = [''programming'', ''language'']" "patterns' = langPatterns"
    | "labelWords = [''tag'']" "patterns' = tagsPatterns"
    | "labelWords = [''key'', ''concept'']" "patterns' = conceptPatterns"
    by auto
  then show ?thesis
  proof cases
    case 1
    then show ?thesis
      unfolding techPatterns_def using label_one_word [OF t] by blast
  next
    case 2
    then show ?thesis
      unfolding langPatterns_def using label_two_words [OF p l] by blast
  next
    case 3
    then show ?thesis
      unfolding tagsPatterns_def using label_one_word [OF g] by blast
  next
    case 4
    then show ?thesis
      unfolding conceptPatterns_def using label_two_words [OF k c] by blast
  qed
qed

lemma fallbackCandidate_items:
  "fallbackCandidate pattern fullText = listItems_spec (regexMatch pattern fullText)"
  by (simp add: fallbackCandidate_def listItems_spec_def cleanItems_def fallbackItems_def
        split: option.splits)

lemma fallbackField_value:
  assumes "(labelWords, patterns') \<in>
             {([''technologie''], techPatterns), ([''programming'', ''language''], langPatterns),
              ([''tag''], tagsPatterns), ([''key'', ''concept''], conceptPatterns)}"
  shows "fallbackField_spec patterns' fullText = fieldValue_spec labelWords fullText"
proof -
  from field_patterns [OF assms] obtain labelItems where
    p: "patterns' = fallbackPatterns labelItems"
    and label: "\<And>items s cap. matchHere (labelItems @ items) s cap =
                (case afterLabel_spec labelWords s of
                   None \<Rightarrow> None | Some r \<Rightarrow> matchHere items r cap)"
    by blast
  note sem = fallbackPatterns_semantics [of labelItems labelWords, OF label, folded p]
  have two: "patterns' = [patterns' ! 0, patterns' ! 1]"
    unfolding p by (simp add: fallbackPatterns_def)
  have bracket: "(\<lambda>rest. matchHere (patterns' ! 0) rest []) = bracketedList_spec labelWords"
    using sem(2) by auto
  have bare: "(\<lambda>rest. matchHere (patterns' ! 1) rest []) = bareLine_spec labelWords"
    using sem(3) by auto
  have left0: "regexMatch (patterns' ! 0) fullText
         = leftmostMatch_spec (bracketedList_spec labelWords) fullText"
    using regexMatch_leftmost [of "patterns' ! 0" fullText] unfolding bracket .
  have left1: "regexMatch (patterns' ! 1) fullText
         = leftmostMatch_spec (bareLine_spec labelWords) fullText"
    using regexMatch_leftmost [of "patterns' ! 1" fullText] unfolding bare .
  have "fallbackField_spec patterns' fullText
          = fallbackField_spec [patterns' ! 0, patterns' ! 1] fullText"
    using two by simp
  also have "\<dots> = fieldValue_spec labelWords fullText"
    using left0 left1
    by (auto simp: fallbackField_spec_def fieldValue_spec_def fallbackCandidate_items Let_def)
  finally show ?thesis .
qed

lemma fallback_example_tags:
  "tags (parseImprovedContent ''Tags: api, security'') = [''api'', ''security'']"
  by code_simp

lemma fallback_example_bracketed:
  "parseImprovedContent bracketedResponse =
     \<lparr>technologies = [''React'', ''Vue''], programmingLanguages = [''Go''],
      tags = [''rest'', ''Api''], keyConcepts = [''hooks''], codeExamples = False,
      difficultyLevel = ''intermediate'', summary = [], content = bracketedResponse\<rparr>"
  by code_simp

lemma fallback_example_bare:
  "parseImprovedContent bareResponse =
     \<lparr>technologies = [''React'', ''Vue''], programmingLanguages = [''Go'', ''C''],
      tags = [''api'', ''security''], keyConcepts = [''hooks'', ''state''], codeExamples = False,
      difficultyLevel = ''intermediate'', summary = [], content = bareResponse\<rparr>"
  by code_simp

text \<open>
  Claim C9. For a response text without the "## Metadata ... ## Content" structure (no
  occurrence of the metadata header followed later by a blank line and the content header),
  each of the four list fields is found on its own in the full text, and is the first
  candidate list that is not empty, a candidate being the trimmed comma-separated items of a
  match without the items "none": it is the value of the bracketed list of the field when
  that has items, and the value of its bare line otherwise. Each field has exactly two
  patterns, tried in this order. At a position of the text the first one matches a bracketed
  list and the second one a bare line, after the label of the field (\<^verbatim>\<open>technologie\<close>,
  \<^verbatim>\<open>programming language\<close>, \<^verbatim>\<open>tag\<close>, \<^verbatim>\<open>key concept\<close>; any case; the two words separated by an
  underscore or a white-space character), an optional \<^verbatim>\<open>s\<close>, an optional colon and white
  space; a search of the text gives the match at the leftmost position that has one. The
  text "Tags: api, security" gives the tags api and security; a response with four
  bracketed lists and one with four bare lines give all four fields.
\<close>

theorem fallback_parser_fields:
  "(\<not> (\<exists>a b c. fullText = a @ (''## Metadata'' @ [CHR 0x0A]) @ b
                      @ ([CHR 0x0A, CHR 0x0A] @ ''## Content'') @ c) \<longrightarrow>
      technologies (parseImprovedContent fullText) = fallbackField_spec techPatterns fullText
      \<and> programmingLanguages (parseImprovedContent fullText) = fallbackField_spec langPatterns fullText
      \<and> tags (parseImprovedContent fullText) = fallbackField_spec tagsPatterns fullText
      \<and> keyConcepts (parseImprovedContent fullText) = fallbackField_spec conceptPatterns fullText)
   \<and> (\<not> (\<exists>a b c. fullText = a @ (''## Metadata'' @ [CHR 0x0A]) @ b
                      @ ([CHR 0x0A, CHR 0x0A] @ ''## Content'') @ c) \<longrightarrow>
      technologies (parseImprovedContent fullText) = fieldValue_spec [''technologie''] fullText
      \<and> programmingLanguages (parseImprovedContent fullText)
          = fieldValue_spec [''programming'', ''language''] fullText
      \<and> tags (parseImprovedContent fullText) = fieldValue_spec [''tag''] fullText
      \<and> keyConcepts (parseImprovedContent fullText) = fieldValue_spec [''key'', ''concept''] fullText)
   \<and> ((labelWords, patterns') \<in>
         {([''technologie''], techPatterns), ([''programming'', ''language''], langPatterns),
          ([''tag''], tagsPatterns), ([''key'', ''concept''], conceptPatterns)} \<longrightarrow>
       length patterns' = 2
       \<and> matchHere (patterns' ! 0) rest [] = bracketedList_spec labelWords rest
       \<and> matchHere (patterns' ! 1) rest [] = bareLine_spec labelWords rest
       \<and> regexMatch (patterns' ! 0) fullText
           = leftmostMatch_spec (bracketedList_spec labelWords) fullText
       \<and> regexMatch (patterns' ! 1) fullText
           = leftmostMatch_spec (bareLine_spec labelWords) fullText
       \<and> fallbackField_spec patterns' fullText = fieldValue_spec labelWords fullText)
   \<and> tags (parseImprovedContent ''Tags: api, security'') = [''api'', ''security'']
   \<and> parseImprovedContent bracketedResponse =
       \<lparr>technologies = [''React'', ''Vue''], programmingLanguages = [''Go''],
        tags = [''rest'', ''Api''], keyConcepts = [''hooks''], codeExamples = False,
        difficultyLevel = ''intermediate'', summary = [], content = bracketedResponse\<rparr>
   \<and> parseImprovedContent bareResponse =
       \<lparr>technologies = [''React'', ''Vue''], programmingLanguages = [''Go'', ''C''],
        tags = [''api'', ''security''], keyConcepts = [''hooks'', ''state''], codeExamples = False,
        difficultyLevel = ''intermediate'', summary = [], content = bareResponse\<rparr>"
proof -
  have a: "\<not> (\<exists>a b c. fullText = a @ (''## Metadata'' @ [CHR 0x0A]) @ b
                      @ ([CHR 0x0A, CHR 0x0A] @ ''## Content'') @ c) \<longrightarrow>
      technologies (parseImprovedContent fullText) = fallbackField_spec techPatterns fullText
      \<and> programmingLanguages (parseImprovedContent fullText) = fallbackField_spec langPatterns fullText
      \<and> tags (parseImprovedContent fullText) = fallbackField_spec tagsPatterns fullText
      \<and> keyConcepts (parseImprovedContent fullText) = fallbackField_spec conceptPatterns fullText"
  proof
    assume "\<not> (\<exists>a b c. fullText = a @ (''## Metadata'' @ [CHR 0x0A]) @ b
                      @ ([CHR 0x0A, CHR 0x0A] @ ''## Content'') @ c)"
    then have "regexMatch metadataRegex fullText = None"
      using metadataRegex_matches_iff [of fullText]
      unfolding metadataHeader_def contentHeader_def by blast
    then show "technologies (parseImprovedContent fullText) = fallbackField_spec techPatterns fullText
      \<and> programmingLanguages (parseImprovedContent fullText) = fallbackField_spec langPatterns fullText
      \<and> tags (parseImprovedContent fullText) = fallbackField_spec tagsPatterns fullText
      \<and> keyConcepts (parseImprovedContent fullText) = fallbackField_spec conceptPatterns fullText"
      by (simp add: parseImprovedContent_def Let_def fallbackLoop_spec)
  qed
  have b: "(labelWords, patterns') \<in>
         {([''technologie''], techPatterns), ([''programming'', ''language''], langPatterns),
          ([''tag''], tagsPatterns), ([''key'', ''concept''], conceptPatterns)} \<longrightarrow>
       length patterns' = 2
       \<and> matchHere (patterns' ! 0) rest [] = bracketedList_spec labelWords rest
       \<and> matchHere (patterns' ! 1) rest [] = bareLine_spec labelWords rest
       \<and> regexMatch (patterns' ! 0) fullText
           = leftmostMatch_spec (bracketedList_spec labelWords) fullText
       \<and> regexMatch (patterns' ! 1) fullText
           = leftmostMatch_spec (bareLine_spec labelWords) fullText
       \<and> fallbackField_spec patterns' fullText = fieldValue_spec labelWords fullText"
  proof
    assume member: "(labelWords, patterns') \<in>
         {([''technologie''], techPatterns), ([''programming'', ''language''], langPatterns),
          ([''tag''], tagsPatterns), ([''key'', ''concept''], conceptPatterns)}"
    from field_patterns [OF member] obtain labelItems where
      p: "patterns' = fallbackPatterns labelItems"
      and label: "\<And>items s cap. matchHere (labelItems @ items) s cap =
                  (case afterLabel_spec labelWords s of
                     None \<Rightarrow> None | Some r \<Rightarrow> matchHere items r cap)"
      by blast
    note sem = fallbackPatterns_semantics [of labelItems labelWords, OF label, folded p]
    have bracket: "(\<lambda>rest. matchHere (patterns' ! 0) rest []) = bracketedList_spec labelWords"
      using sem(2) by auto
    have bare: "(\<lambda>rest. matchHere (patterns' ! 1) rest []) = bareLine_spec labelWords"
      using sem(3) by auto
    have left0: "regexMatch (patterns' ! 0) fullText
           = leftmostMatch_spec (bracketedList_spec labelWords) fullText"
      using regexMatch_leftmost [of "patterns' ! 0" fullText] unfolding bracket .
    have left1: "regexMatch (patterns' ! 1) fullText
           = leftmostMatch_spec (bareLine_spec labelWords) fullText"
      using regexMatch_leftmost [of "patterns' ! 1" fullText] unfolding bare .
    show "length patterns' = 2
       \<and> matchHere (patterns' ! 0) rest [] = bracketedList_spec labelWords rest
       \<and> matchHere (patterns' ! 1) rest [] = bareLine_spec labelWords rest
       \<and> regexMatch (patterns' ! 0) fullText
           = leftmostMatch_spec (bracketedList_spec labelWords) fullText
       \<and> regexMatch (patterns' ! 1) fullText
           = leftmostMatch_spec (bareLine_spec labelWords) fullText
       \<and> fallbackField_spec patterns' fullText = fieldValue_spec labelWords fullText"
      by (intro conjI sem(1) sem(2) sem(3) left0 left1 fallbackField_value [OF member])
  qed
  have a': "\<not> (\<exists>a b c. fullText = a @ (''## Metadata'' @ [CHR 0x0A]) @ b
                      @ ([CHR 0x0A, CHR 0x0A] @ ''## Content'') @ c) \<longrightarrow>
      technologies (parseImprovedContent fullText) = fieldValue_spec [''technologie''] fullText
      \<and> programmingLanguages (parseImprovedContent fullText)
          = fieldValue_spec [''programming'', ''language''] fullText
      \<and> tags (parseImprovedContent fullText) = fieldValue_spec [''tag''] fullText
      \<and> keyConcepts (parseImprovedContent fullText) = fieldValue_spec [''key'', ''concept''] fullText"
    using a
      fallbackField_value [of "[''technologie'']" techPatterns fullText]
      fallbackField_value [of "[''programming'', ''language'']" langPatterns fullText]
      fallbackField_value [of "[''tag'']" tagsPatterns fullText]
      fallbackField_value [of "[''key'', ''concept'']" conceptPatterns fullText]
    by simp
  show ?thesis
    by (intro conjI a a' b fallback_example_tags fallback_example_bracketed fallback_example_bare)
qed

theorem fallback_parser_fields_witness:
  "\<not> (\<exists>a b c. ''Technologies: none'' @ [CHR 0x0A] @ ''tags [REST, none, Api ]''
                  = a @ (''## Metadata'' @ [CHR 0x0A]) @ b @ ([CHR 0x0A, CHR 0x0A] @ ''## Content'') @ c)
   \<and> tags (parseImprovedContent (''Technologies: none'' @ [CHR 0x0A] @ ''tags [REST, none, Api ]''))
       = [''REST'', ''Api'']
   \<and> technologies (parseImprovedContent (''Technologies: none'' @ [CHR 0x0A] @ ''tags [REST, none, Api ]''))
       = []
   \<and> matchHere (tagsPatterns ! 1) ''Tags: api, security'' [] = Some ''api, security''
   \<and> matchHere (langPatterns ! 0) ''programming languages: [Go]'' [] = Some ''Go''
   \<and> matchHere (langPatterns ! 0) ''programming languages: Go'' [] = None
   \<and> regexMatch (conceptPatterns ! 0) bracketedResponse = Some ''hooks''
   \<and> regexMatch (techPatterns ! 1) bareResponse = Some ''React, Vue''"
proof -
  let ?t = "''Technologies: none'' @ [CHR 0x0A] @ ''tags [REST, none, Api ]''"
  note c2 = conjunct2
  have "regexMatch metadataRegex ?t = None" by code_simp
  then have h: "\<not> (\<exists>a b c. ?t = a @ (''## Metadata'' @ [CHR 0x0A]) @ b
                      @ ([CHR 0x0A, CHR 0x0A] @ ''## Content'') @ c)"
    using metadataRegex_matches_iff [of ?t]
    unfolding metadataHeader_def contentHeader_def by blast
  have t: "fieldValue_spec [''tag''] ?t = [''REST'', ''Api'']" by code_simp
  have k: "fallbackField_spec techPatterns ?t = []" by code_simp
  note fields = mp [OF fallback_parser_fields [of ?t "[''tag'']" tagsPatterns "[]", THEN conjunct1] h]
  note fieldValues = mp [OF fallback_parser_fields
                         [of ?t "[''tag'']" tagsPatterns "[]", THEN c2, THEN conjunct1] h]
  have f1: "tags (parseImprovedContent ?t) = [''REST'', ''Api'']"
    using fieldValues t by simp
  have f2: "technologies (parseImprovedContent ?t) = []"
    using fields k by simp
  have tagsField: "([''tag''], tagsPatterns) \<in>
         {([''technologie''], techPatterns), ([''programming'', ''language''], langPatterns),
          ([''tag''], tagsPatterns), ([''key'', ''concept''], conceptPatterns)}"
    by simp
  have langField: "([''programming'', ''language''], langPatterns) \<in>
         {([''technologie''], techPatterns), ([''programming'', ''language''], langPatterns),
          ([''tag''], tagsPatterns), ([''key'', ''concept''], conceptPatterns)}"
    by simp
  have conceptField: "([''key'', ''concept''], conceptPatterns) \<in>
         {([''technologie''], techPatterns), ([''programming'', ''language''], langPatterns),
          ([''tag''], tagsPatterns), ([''key'', ''concept''], conceptPatterns)}"
    by simp
  have techField: "([''technologie''], techPatterns) \<in>
         {([''technologie''], techPatterns), ([''programming'', ''language''], langPatterns),
          ([''tag''], tagsPatterns), ([''key'', ''concept''], conceptPatterns)}"
    by simp
  have e1: "bareLine_spec [''tag''] ''Tags: api, security'' = Some ''api, security''"
    by code_simp
  have e2: "bracketedList_spec [''programming'', ''language''] ''programming languages: [Go]'' = Some ''Go''"
    by code_simp
  have e3: "bracketedList_spec [''programming'', ''language''] ''programming languages: Go'' = None"
    by code_simp
  have e4: "leftmostMatch_spec (bracketedList_spec [''key'', ''concept'']) bracketedResponse = Some ''hooks''"
    by code_simp
  have e5: "leftmostMatch_spec (bareLine_spec [''technologie'']) bareResponse = Some ''React, Vue''"
    by code_simp
  have m1: "matchHere (tagsPatterns ! 1) ''Tags: api, security'' [] = Some ''api, security''"
    using mp [OF fallback_parser_fields
                [of "[]" "[''tag'']" tagsPatterns "''Tags: api, security''", THEN c2, THEN c2, THEN conjunct1]
              tagsField] e1
    by simp
  have m2: "matchHere (langPatterns ! 0) ''programming languages: [Go]'' [] = Some ''Go''"
    using mp [OF fallback_parser_fields
                [of "[]" "[''programming'', ''language'']" langPatterns "''programming languages: [Go]''",
                 THEN c2, THEN c2, THEN conjunct1]
              langField] e2
    by simp
  have m3: "matchHere (langPatterns ! 0) ''programming languages: Go'' [] = None"
    using mp [OF fallback_parser_fields
                [of "[]" "[''programming'', ''language'']" langPatterns "''programming languages: Go''",
                 THEN c2, THEN c2, THEN conjunct1]
              langField] e3
    by simp
  have m4: "regexMatch (conceptPatterns ! 0) bracketedResponse = Some ''hooks''"
    using mp [OF fallback_parser_fields
                [of bracketedResponse "[''key'', ''concept'']" conceptPatterns "[]",
                 THEN c2, THEN c2, THEN conjunct1]
              conceptField] e4
    by simp
  have m5: "regexMatch (techPatterns ! 1) bareResponse = Some ''React, Vue''"
    using mp [OF fallback_parser_fields
                [of bareResponse "[''technologie'']" techPatterns "[]", THEN c2, THEN c2, THEN conjunct1]
              techField] e5
    by simp
  show ?thesis
    by (intro conjI h f1 f2 m1 m2 m3 m4 m5)
qed

section \<open>Facts about the front matter\<close>

lemma createMetadata_lines:
  assumes "createMetadata pf captured pc u cat g = Inr fm"
  shows "\<exists>published hostname.
           fm = unlines (frontMatterLines captured pc u cat g published hostname)"
  using assms
  by (auto simp: createMetadata_def Let_def split: option.splits if_splits)

lemma frontMatterLines_escaped:
  "frontMatterLines captured pc u cat g published hostname ! 2 = ''title: '' @ escapeYaml (title pc)"
  "frontMatterLines captured pc u cat g published hostname ! 7
     = ''author: '' @ escapeYaml (if author pc = [] then ''Unknown'' else author pc)"
  "frontMatterLines captured pc u cat g published hostname ! 9
     = ''technologies: '' @ formatYamlArray (case g of Some e \<Rightarrow> technologies e | None \<Rightarrow> [])"
  "frontMatterLines captured pc u cat g published hostname ! 10
     = ''programming_languages: ''
         @ formatYamlArray (case g of Some e \<Rightarrow> programmingLanguages e | None \<Rightarrow> [])"
  "frontMatterLines captured pc u cat g published hostname ! 11
     = ''tags: '' @ formatYamlArray (case g of Some e \<Rightarrow> tags e | None \<Rightarrow> [])"
  "frontMatterLines captured pc u cat g published hostname ! 12
     = ''key_concepts: '' @ formatYamlArray (case g of Some e \<Rightarrow> keyConcepts e | None \<Rightarrow> [])"
  by (simp_all add: frontMatterLines_def Let_def)

lemma frontMatterLines_verbatim:
  "frontMatterLines captured pc u cat g published hostname ! 3 = ''source: '' @ u"
  "frontMatterLines captured pc u cat g published hostname ! 6 = ''domain: '' @ hostname"
  "frontMatterLines captured pc u cat g published hostname ! 8 = ''category: '' @ cat"
  by (simp_all add: frontMatterLines_def Let_def)

text \<open>
  Claim C8 as stated fails for the string fields that the renderer interpolates without
  \<^verbatim>\<open>escapeYaml\<close>: the source line of every front matter holds a URL with a colon and is
  emitted without quotes.
\<close>

theorem escapeYaml_counterexample:
  "createMetadata blankContentService jan10 tipsPage ''https://example.com/programming/tips''
       ''programming'' None
     = Inr (unlines (frontMatterLines jan10 tipsPage ''https://example.com/programming/tips''
                       ''programming'' None None ''example.com''))
   \<and> frontMatterLines jan10 tipsPage ''https://example.com/programming/tips''
         ''programming'' None None ''example.com'' ! 3
       = ''source: https://example.com/programming/tips''
   \<and> CHR '':'' \<in> set ''https://example.com/programming/tips''"
  by (simp add: createMetadata_def Let_def tipsPage_def blankContentService_def
        frontMatterLines_verbatim)

lemma formatYamlArray_Cons:
  "formatYamlArray (x # xs) = ''['' @ escapeYaml x @ concat (map (\<lambda>z. '', '' @ escapeYaml z) xs) @ '']''"
  by (simp add: formatYamlArray_def join_def comp_def)

lemma createMetadata_rendering:
  "createMetadata pf captured pc u cat g =
     (case (case publicationDate pc of
              None \<Rightarrow> Some ''unknown''
            | Some p \<Rightarrow>
                if p = [] then Some ''unknown''
                else (case parseDate pf p of
                        None \<Rightarrow> None
                      | Some d \<Rightarrow> Some (if toISOString d = [] then ''unknown'' else toISOString d))) of
        None \<Rightarrow> Inl (PlatformError ''Invalid time value'')
      | Some published \<Rightarrow>
          (case hostnameOf pf u of
             None \<Rightarrow> Inl (PlatformError ''Invalid URL'')
           | Some hostname \<Rightarrow>
               Inr (concat (map (\<lambda>l. l @ [CHR 0x0A])
                 [''```yaml'',
                  ''---'',
                  ''title: '' @ escapeYaml (title pc),
                  ''source: '' @ u,
                  ''date_published: '' @ published,
                  ''date_captured: '' @ toISOString captured,
                  ''domain: '' @ hostname,
                  ''author: '' @ escapeYaml (if author pc = [] then ''Unknown'' else author pc),
                  ''category: '' @ cat,
                  ''technologies: ''
                     @ formatYamlArray (case g of None \<Rightarrow> [] | Some e \<Rightarrow> technologies e),
                  ''programming_languages: ''
                     @ formatYamlArray (case g of None \<Rightarrow> [] | Some e \<Rightarrow> programmingLanguages e),
                  ''tags: '' @ formatYamlArray (case g of None \<Rightarrow> [] | Some e \<Rightarrow> tags e),
                  ''key_concepts: ''
                     @ formatYamlArray (case g of None \<Rightarrow> [] | Some e \<Rightarrow> keyConcepts e),
                  ''code_examples: ''
                     @ (case g of None \<Rightarrow> ''false''
                        | Some e \<Rightarrow> if codeExamples e then ''true'' else ''false''),
                  ''difficulty_level: ''
                     @ (case g of None \<Rightarrow> ''unknown''
                        | Some e \<Rightarrow> if difficultyLevel e = [] then ''unknown'' else difficultyLevel e),
                  ''summary: |'',
                  ''  '' @ concat (map (\<lambda>c. if c = CHR 0x0A then [CHR 0x0A, CHR '' '', CHR '' ''] else [c])
                                   (case g of None \<Rightarrow> [] | Some e \<Rightarrow> summary e)),
                  ''---'',
                  ''```'',
                  [],
                  ''# '' @ title pc,
                  []]))))"
  by (simp add: createMetadata_def frontMatterLines_def unlines_def nl_def indentLines_def Let_def
        split: option.splits)

lemma escapeYaml_unchanged_iff:
  "escapeYaml s = s \<longleftrightarrow> \<not> ((\<exists>c \<in> set s. c \<in> set yamlSpecial) \<or> CHR 0x0A \<in> set s)"
proof -
  have "[CHR 0x22] @ escapeQuotes s @ [CHR 0x22] \<noteq> s"
  proof
    assume "[CHR 0x22] @ escapeQuotes s @ [CHR 0x22] = s"
    then have "length ([CHR 0x22] @ escapeQuotes s @ [CHR 0x22]) = length s" by simp
    moreover have "length s \<le> length (escapeQuotes s)"
      unfolding escapeQuotes_def by (induction s) auto
    ultimately show False by simp
  qed
  then show ?thesis
    by (auto simp: escapeYaml_def list_ex_iff)
qed


text \<open>
  Claim C8, amended. \<^verbatim>\<open>escapeYaml\<close> wraps a string in double quotes, with a backslash put
  before each double quote inside, exactly when the string contains a newline or one of the
  fifteen characters \<^verbatim>\<open>: " ' | > { } [ ] @ ` ! % & *\<close>, and returns every other string, the empty
  one included, unchanged. The renderer applies it to the title, to the author (\<^verbatim>\<open>Unknown\<close>
  when empty) and to each item of the four list fields, whose items are joined by a comma and
  a space between square brackets. The other fields are not escaped: the source is the URL,
  \<^verbatim>\<open>date_published\<close> the ISO text of the publication date or \<^verbatim>\<open>unknown\<close>, \<^verbatim>\<open>date_captured\<close> the
  ISO text of the capture date, the domain the host name of the URL and the category the
  category, all as they are; \<^verbatim>\<open>difficulty_level\<close> is the enrichment's value as it is, or
  \<^verbatim>\<open>unknown\<close> when it is empty or there is no enrichment; the summary follows the line
  \<^verbatim>\<open>summary: |\<close>, indented by two spaces, with two spaces put after each of its newlines.
\<close>

theorem escapeYaml_quotes_iff_special:
  "escapeYaml s =
     (if (\<exists>c \<in> set s. c \<in> set yamlSpecial) \<or> CHR 0x0A \<in> set s
      then [CHR 0x22] @ concat (map (\<lambda>c. if c = CHR 0x22 then [CHR 0x5C, CHR 0x22] else [c]) s) @ [CHR 0x22]
      else s)
   \<and> (escapeYaml s = s \<longleftrightarrow> \<not> ((\<exists>c \<in> set s. c \<in> set yamlSpecial) \<or> CHR 0x0A \<in> set s))
   \<and> set yamlSpecial = {CHR '':'', CHR 0x22, CHR 0x27, CHR ''|'', CHR ''>'', CHR ''{'', CHR ''}'',
        CHR ''['', CHR '']'', CHR ''@'', CHR 0x60, CHR ''!'', CHR ''%'', CHR ''&'', CHR ''*''}
   \<and> formatYamlArray [] = ''[]''
   \<and> formatYamlArray (x # xs)
       = ''['' @ escapeYaml x @ concat (map (\<lambda>z. '', '' @ escapeYaml z) xs) @ '']''
   \<and> createMetadata pf captured pc u cat g =
        (case (case publicationDate pc of
                 None \<Rightarrow> Some ''unknown''
               | Some p \<Rightarrow>
                   if p = [] then Some ''unknown''
                   else (case parseDate pf p of
                           None \<Rightarrow> None
                         | Some d \<Rightarrow> Some (if toISOString d = [] then ''unknown'' else toISOString d))) of
           None \<Rightarrow> Inl (PlatformError ''Invalid time value'')
         | Some published \<Rightarrow>
             (case hostnameOf pf u of
                None \<Rightarrow> Inl (PlatformError ''Invalid URL'')
              | Some hostname \<Rightarrow>
                  Inr (concat (map (\<lambda>l. l @ [CHR 0x0A])
                    [''```yaml'',
                     ''---'',
                     ''title: '' @ escapeYaml (title pc),
                     ''source: '' @ u,
                     ''date_published: '' @ published,
                     ''date_captured: '' @ toISOString captured,
                     ''domain: '' @ hostname,
                     ''author: '' @ escapeYaml (if author pc = [] then ''Unknown'' else author pc),
                     ''category: '' @ cat,
                     ''technologies: ''
                        @ formatYamlArray (case g of None \<Rightarrow> [] | Some e \<Rightarrow> technologies e),
                     ''programming_languages: ''
                        @ formatYamlArray (case g of None \<Rightarrow> [] | Some e \<Rightarrow> programmingLanguages e),
                     ''tags: '' @ formatYamlArray (case g of None \<Rightarrow> [] | Some e \<Rightarrow> tags e),
                     ''key_concepts: ''
                        @ formatYamlArray (case g of None \<Rightarrow> [] | Some e \<Rightarrow> keyConcepts e),
                     ''code_examples: ''
                        @ (case g of None \<Rightarrow> ''false''
                           | Some e \<Rightarrow> if codeExamples e then ''true'' else ''false''),
                     ''difficulty_level: ''
                        @ (case g of None \<Rightarrow> ''unknown''
                           | Some e \<Rightarrow> if difficultyLevel e = [] then ''unknown'' else difficultyLevel e),
                     ''summary: |'',
                     ''  '' @ concat (map (\<lambda>c. if c = CHR 0x0A then [CHR 0x0A, CHR '' '', CHR '' ''] else [c])
                                      (case g of None \<Rightarrow> [] | Some e \<Rightarrow> summary e)),
                     ''---'',
                     ''```'',
                     [],
                     ''# '' @ title pc,
                     []]))))"
proof -
  have a: "escapeYaml s =
     (if (\<exists>c \<in> set s. c \<in> set yamlSpecial) \<or> CHR 0x0A \<in> set s
      then [CHR 0x22] @ concat (map (\<lambda>c. if c = CHR 0x22 then [CHR 0x5C, CHR 0x22] else [c]) s) @ [CHR 0x22]
      else s)"
    by (auto simp: escapeYaml_def escapeQuotes_def list_ex_iff)
  have c: "set yamlSpecial = {CHR '':'', CHR 0x22, CHR 0x27, CHR ''|'', CHR ''>'', CHR ''{'', CHR ''}'',
        CHR ''['', CHR '']'', CHR ''@'', CHR 0x60, CHR ''!'', CHR ''%'', CHR ''&'', CHR ''*''}"
    by (simp add: yamlSpecial_def)
  have d: "formatYamlArray [] = ''[]''"
    by (simp add: formatYamlArray_def)
  show ?thesis
    by (intro conjI a escapeYaml_unchanged_iff c d formatYamlArray_Cons createMetadata_rendering)
qed

theorem escapeYaml_quotes_iff_special_witness:
  "escapeYaml [CHR ''a'', CHR '':'', CHR '' '', CHR 0x22, CHR ''b'', CHR 0x22]
     = [CHR 0x22, CHR ''a'', CHR '':'', CHR '' '', CHR 0x5C, CHR 0x22, CHR ''b'', CHR 0x5C, CHR 0x22, CHR 0x22]
   \<and> escapeYaml ''Plain title 1.0 - notes'' = ''Plain title 1.0 - notes''
   \<and> createMetadata publishingService jan10 guidePage ''https://example.com/guide'' ''web''
        (Some guideEnrichment)
       = Inr (concat (map (\<lambda>l. l @ [CHR 0x0A])
           [''```yaml'',
            ''---'',
            ''title: '' @ [CHR 0x22] @ ''Say '' @ [CHR 0x5C, CHR 0x22] @ ''hi'' @ [CHR 0x5C, CHR 0x22]
               @ '': a guide'' @ [CHR 0x22],
            ''source: https://example.com/guide'',
            ''date_published: 2026-01-10T12:00:00.000Z'',
            ''date_captured: 2026-01-10T12:00:00.000Z'',
            ''domain: example.com'',
            ''author: Unknown'',
            ''category: web'',
            ''technologies: [React, Node.js]'',
            ''programming_languages: [C#]'',
            ''tags: ['' @ [CHR 0x22] @ ''web: api'' @ [CHR 0x22] @ '', plain]'',
            ''key_concepts: []'',
            ''code_examples: true'',
            ''difficulty_level: unknown'',
            ''summary: |'',
            ''  Line one'',
            ''  Line two'',
            ''---'',
            ''```'',
            [],
            ''# Say '' @ [CHR 0x22] @ ''hi'' @ [CHR 0x22] @ '': a guide'',
            []]))"
proof -
  note c2 = conjunct2
  have "\<not> ((\<exists>c \<in> set ''Plain title 1.0 - notes''. c \<in> set yamlSpecial) \<or> CHR 0x0A \<in> set ''Plain title 1.0 - notes'')"
    by (simp add: yamlSpecial_def)
  with escapeYaml_quotes_iff_special [of "''Plain title 1.0 - notes''", THEN conjunct1]
  have plain: "escapeYaml ''Plain title 1.0 - notes'' = ''Plain title 1.0 - notes''"
    by presburger
  have "(\<exists>c \<in> set [CHR ''a'', CHR '':'', CHR '' '', CHR 0x22, CHR ''b'', CHR 0x22]. c \<in> set yamlSpecial)"
    by (simp add: yamlSpecial_def)
  with escapeYaml_quotes_iff_special
    [of "[CHR ''a'', CHR '':'', CHR '' '', CHR 0x22, CHR ''b'', CHR 0x22]", THEN conjunct1]
  have "escapeYaml [CHR ''a'', CHR '':'', CHR '' '', CHR 0x22, CHR ''b'', CHR 0x22]
     = [CHR 0x22] @ concat (map (\<lambda>c. if c = CHR 0x22 then [CHR 0x5C, CHR 0x22] else [c])
          [CHR ''a'', CHR '':'', CHR '' '', CHR 0x22, CHR ''b'', CHR 0x22]) @ [CHR 0x22]"
    by presburger
  then have quoted: "escapeYaml [CHR ''a'', CHR '':'', CHR '' '', CHR 0x22, CHR ''b'', CHR 0x22]
     = [CHR 0x22, CHR ''a'', CHR '':'', CHR '' '', CHR 0x5C, CHR 0x22, CHR ''b'', CHR 0x5C, CHR 0x22, CHR 0x22]"
    by simp
  have t: "escapeYaml (''Say '' @ [CHR 0x22] @ ''hi'' @ [CHR 0x22] @ '': a guide'')
             = [CHR 0x22] @ ''Say '' @ [CHR 0x5C, CHR 0x22] @ ''hi'' @ [CHR 0x5C, CHR 0x22]
               @ '': a guide'' @ [CHR 0x22]"
    by code_simp
  have au: "escapeYaml ''Unknown'' = ''Unknown''"
    by code_simp
  have l1: "formatYamlArray [''React'', ''Node.js''] = ''[React, Node.js]''"
    by code_simp
  have l2: "formatYamlArray [''C#''] = ''[C#]''"
    by code_simp
  have l3: "formatYamlArray [''web: api'', ''plain'']
              = ''['' @ [CHR 0x22] @ ''web: api'' @ [CHR 0x22] @ '', plain]''"
    by code_simp
  have l4: "formatYamlArray [] = ''[]''"
    by code_simp
  have full: "createMetadata publishingService jan10 guidePage ''https://example.com/guide'' ''web''
        (Some guideEnrichment)
       = Inr (concat (map (\<lambda>l. l @ [CHR 0x0A])
           [''```yaml'',
            ''---'',
            ''title: '' @ [CHR 0x22] @ ''Say '' @ [CHR 0x5C, CHR 0x22] @ ''hi'' @ [CHR 0x5C, CHR 0x22]
               @ '': a guide'' @ [CHR 0x22],
            ''source: https://example.com/guide'',
            ''date_published: 2026-01-10T12:00:00.000Z'',
            ''date_captured: 2026-01-10T12:00:00.000Z'',
            ''domain: example.com'',
            ''author: Unknown'',
            ''category: web'',
            ''technologies: [React, Node.js]'',
            ''programming_languages: [C#]'',
            ''tags: ['' @ [CHR 0x22] @ ''web: api'' @ [CHR 0x22] @ '', plain]'',
            ''key_concepts: []'',
            ''code_examples: true'',
            ''difficulty_level: unknown'',
            ''summary: |'',
            ''  Line one'',
            ''  Line two'',
            ''---'',
            ''```'',
            [],
            ''# Say '' @ [CHR 0x22] @ ''hi'' @ [CHR 0x22] @ '': a guide'',
            []]))"
    using escapeYaml_quotes_iff_special
      [of "[]" "[]" "[]" publishingService jan10 guidePage "''https://example.com/guide''" "''web''"
          "Some guideEnrichment", THEN c2, THEN c2, THEN c2, THEN c2, THEN c2] t au l1 l2 l3 l4
    by (simp add: publishingService_def guidePage_def guideEnrichment_def jan10_def)
  show ?thesis
    by (intro conjI quoted plain full)
qed


end
